theory Spec2Isabelle
  imports Complex_Main
begin

section \<open>Python values used by the card pipeline\<close>

text \<open>
  The scripts read cards from JSON with \<^verbatim>\<open>card.get(key)\<close>. A key that is missing and a
  key that holds \<^verbatim>\<open>null\<close> both read as \<^verbatim>\<open>None\<close> (or as a default that is as falsy as
  \<^verbatim>\<open>None\<close>), so a field of the card is an \<open>option\<close>: \<open>None\<close> for both. Field types
  are the ones of the bulk-export schema: strings, lists of strings, numbers.
\<close>

text \<open>Python truthiness of an optional string: \<^verbatim>\<open>None\<close> and \<^verbatim>\<open>""\<close> are falsy.\<close>

fun truthy :: "string option \<Rightarrow> bool" where
  "truthy None = False"
| "truthy (Some s) = (s \<noteq> [])"

text \<open>\<^verbatim>\<open>x or ""\<close> for an optional string.\<close>

fun or_empty :: "string option \<Rightarrow> string" where
  "or_empty None = []"
| "or_empty (Some s) = s"

text \<open>\<^verbatim>\<open>x or []\<close> for an optional list.\<close>

fun or_nil :: "'a list option \<Rightarrow> 'a list" where
  "or_nil None = []"
| "or_nil (Some xs) = xs"

text \<open>\<^verbatim>\<open>sep.join(parts)\<close>.\<close>

fun join :: "string \<Rightarrow> string list \<Rightarrow> string" where
  "join sep [] = []"
| "join sep [x] = x"
| "join sep (x # y # ys) = x @ sep @ join sep (y # ys)"

section \<open>Exceptions, numbers and the Python library\<close>

text \<open>The exceptions that end a run.\<close>

datatype error = ValueError | OverflowError | AssertionError | OSError

text \<open>
  A JSON number as \<^verbatim>\<open>json.load\<close> returns it: a Python \<^verbatim>\<open>int\<close>, which is unbounded, or
  a Python \<^verbatim>\<open>float\<close>. The type \<open>'f\<close> stands for the floats, which are IEEE 754 doubles
  with their infinities and NaNs: the model does not fix what they are.
\<close>

datatype 'f number = JInt int | JFloat 'f

text \<open>
  What the scripts use of Python and its library, none of it code of the repository, is
  a parameter of the model:
  \<^item> \<open>lib_dumps\<close> is \<^verbatim>\<open>json.dumps(d, separators=(",", ":"))\<close> on a dictionary of strings;
  \<^item> \<open>lib_float\<close> is \<^verbatim>\<open>float(n)\<close> on an \<^verbatim>\<open>int\<close>: the nearest double, or
    \<^verbatim>\<open>OverflowError\<close> for an integer too large for one;
  \<^item> \<open>lib_int\<close> is \<^verbatim>\<open>int(x)\<close> on a \<^verbatim>\<open>float\<close>: \<open>x\<close> without its fraction,
    \<^verbatim>\<open>ValueError\<close> for a NaN, \<^verbatim>\<open>OverflowError\<close> for an infinity;
  \<^item> \<open>lib_mul\<close> and \<open>lib_div\<close> are \<^verbatim>\<open>x * y\<close> and \<^verbatim>\<open>x / y\<close> on floats, each rounded to a
    double; \<open>lib_sum\<close> is the builtin \<^verbatim>\<open>sum\<close> on a list of floats that is not empty;
    \<open>lib_le_zero\<close> is \<^verbatim>\<open>s <= 0\<close>; \<open>lib_sqrt\<close> is \<^verbatim>\<open>math.sqrt\<close>.
\<close>

record 'f library =
  lib_dumps :: "(string \<times> string) list \<Rightarrow> string"
  lib_float :: "int \<Rightarrow> error + 'f"
  lib_int :: "'f \<Rightarrow> error + int"
  lib_mul :: "'f \<Rightarrow> 'f \<Rightarrow> 'f"
  lib_sum :: "'f list \<Rightarrow> 'f"
  lib_le_zero :: "'f \<Rightarrow> bool"
  lib_sqrt :: "'f \<Rightarrow> 'f"
  lib_div :: "'f \<Rightarrow> 'f \<Rightarrow> 'f"

text \<open>\<^verbatim>\<open>float(x)\<close> and \<^verbatim>\<open>int(x)\<close> on a JSON number.\<close>

fun py_float :: "'f library \<Rightarrow> 'f number \<Rightarrow> error + 'f" where
  "py_float lib (JInt n) = lib_float lib n"
| "py_float lib (JFloat x) = Inr x"

fun py_int :: "'f library \<Rightarrow> 'f number \<Rightarrow> error + int" where
  "py_int lib (JInt n) = Inr n"
| "py_int lib (JFloat x) = lib_int lib x"

section \<open>Cards and faces\<close>

type_synonym uris = "string \<rightharpoonup> string option"

record face =
  f_type_line :: "string option"
  f_oracle_text :: "string option"
  f_image_uris :: "uris option"

record 'f card =
  c_id :: "string option"
  c_name :: "string option"
  c_mana_cost :: "string option"
  c_cmc :: "'f number option"
  c_type_line :: "string option"
  c_oracle_text :: "string option"
  c_power :: "string option"
  c_toughness :: "string option"
  c_colors :: "string list option"
  c_color_identity :: "string list option"
  c_keywords :: "string list option"
  c_edhrec_rank :: "'f number option"
  c_set :: "string option"
  c_collector_number :: "string option"
  c_rarity :: "string option"
  c_layout :: "string option"
  c_image_uris :: "uris option"
  c_legalities :: "(string \<times> string) list option"
  c_card_faces :: "face list option"

section \<open>embed\_cards.py: the embedding text\<close>

text \<open>The dictionary literal of \<^verbatim>\<open>colors_to_words\<close>.\<close>

definition mapping :: "(string \<times> string) list" where
  "mapping = [(''W'', ''White''), (''U'', ''Blue''), (''B'', ''Black''),
              (''R'', ''Red''), (''G'', ''Green'')]"

text \<open>\<^verbatim>\<open>mapping.get(c, c)\<close>.\<close>

definition mapping_get :: "string \<Rightarrow> string" where
  "mapping_get c = (case map_of mapping c of Some w \<Rightarrow> w | None \<Rightarrow> c)"

definition colors_to_words :: "string list \<Rightarrow> string" where
  "colors_to_words colors =
     (if colors = [] then ''Colorless'' else join ''/'' (map mapping_get colors))"

text \<open>
  The loop over the faces in \<^verbatim>\<open>build_embed_text\<close> (lines 99 to 103): \<open>parts\<close> is the
  list built so far.
\<close>

fun embed_parts :: "face list \<Rightarrow> string list \<Rightarrow> string list" where
  "embed_parts [] parts = parts"
| "embed_parts (f # fs) parts =
     (let tl = or_empty (f_type_line f);
          ot = or_empty (f_oracle_text f)
      in if tl \<noteq> [] \<or> ot \<noteq> []
         then embed_parts fs (parts @ [tl @ '' :: '' @ ot])
         else embed_parts fs parts)"

text \<open>Lines 95 to 105 of \<^verbatim>\<open>build_embed_text\<close>: the value of \<open>oracle_text\<close> after them.\<close>

definition embed_oracle_text :: "'f card \<Rightarrow> string" where
  "embed_oracle_text c =
     (let oracle_text = c_oracle_text c;
          oracle_text =
            (if \<not> truthy oracle_text
             then Some (join '' || '' (embed_parts (or_nil (c_card_faces c)) []))
             else oracle_text)
      in or_empty oracle_text)"

text \<open>Lines 107 to 116: the list \<open>fields\<close>, appended to in source order.\<close>

definition embed_fields :: "'f card \<Rightarrow> bool \<Rightarrow> string list" where
  "embed_fields c include_name =
     (let name = c_name c;
          type_line = c_type_line c;
          mana_cost = c_mana_cost c;
          colors = or_nil (c_colors c);
          colors_str = colors_to_words colors;
          oracle_text = embed_oracle_text c;
          fields = [];
          fields = (if include_name \<and> truthy name
                    then fields @ [''Name: '' @ or_empty name] else fields);
          fields = (if truthy type_line
                    then fields @ [''Type: '' @ or_empty type_line] else fields);
          fields = (if truthy mana_cost
                    then fields @ [''ManaCost: '' @ or_empty mana_cost] else fields);
          fields = fields @ [''Colors: '' @ colors_str];
          fields = (if oracle_text \<noteq> []
                    then fields @ [''Oracle: '' @ oracle_text] else fields)
      in fields)"

definition build_embed_text :: "'f card \<Rightarrow> bool \<Rightarrow> string" where
  "build_embed_text c include_name = join [CHR 0x0A] (embed_fields c include_name)"

section \<open>embed\_cards.py: the stored properties\<close>

text \<open>
  A value of the properties dictionary. \<open>PNone\<close> is Python's \<^verbatim>\<open>None\<close>, which
  \<^verbatim>\<open>json.dump\<close> would write as \<^verbatim>\<open>null\<close>.
\<close>

datatype 'f pvalue = PNone | PStr string | PFloat 'f | PInt int | PList "string list"

type_synonym 'f props = "(string \<times> 'f pvalue) list"

text \<open>\<^verbatim>\<open>card.get(key)\<close> stored as it is: a string or \<^verbatim>\<open>None\<close>.\<close>

fun get_str :: "string option \<Rightarrow> 'f pvalue" where
  "get_str None = PNone"
| "get_str (Some s) = PStr s"

text \<open>\<^verbatim>\<open>card.get("image_uris") or {}\<close>.\<close>

fun or_dict :: "uris option \<Rightarrow> uris" where
  "or_dict None = Map.empty"
| "or_dict (Some d) = d"

text \<open>\<^verbatim>\<open>iu.get(key) or ""\<close> for a key that is in the dictionary.\<close>

definition uri_get :: "uris \<Rightarrow> string \<Rightarrow> string" where
  "uri_get iu key = (case iu key of None \<Rightarrow> [] | Some v \<Rightarrow> or_empty v)"

text \<open>The loop over the faces in \<^verbatim>\<open>get_image\<close>.\<close>

fun get_image_faces :: "face list \<Rightarrow> string \<Rightarrow> string" where
  "get_image_faces [] key = []"
| "get_image_faces (f # fs) key =
     (let fiu = or_dict (f_image_uris f)
      in if fiu key \<noteq> None then uri_get fiu key else get_image_faces fs key)"

definition get_image :: "'f card \<Rightarrow> string \<Rightarrow> string" where
  "get_image c key =
     (let iu = or_dict (c_image_uris c)
      in if iu key \<noteq> None then uri_get iu key
         else get_image_faces (or_nil (c_card_faces c)) key)"

text \<open>The loop over the faces in \<^verbatim>\<open>extract_props\<close> (lines 138 to 141).\<close>

fun props_parts :: "face list \<Rightarrow> string list \<Rightarrow> string list" where
  "props_parts [] parts = parts"
| "props_parts (f # fs) parts =
     (let ot = or_empty (f_oracle_text f)
      in if ot \<noteq> [] then props_parts fs (parts @ [ot]) else props_parts fs parts)"

text \<open>Lines 134 to 142 and the \<^verbatim>\<open>oracle_text or ""\<close> of line 153.\<close>

definition props_oracle_text :: "'f card \<Rightarrow> string" where
  "props_oracle_text c =
     (let oracle_text = c_oracle_text c;
          oracle_text =
            (if \<not> truthy oracle_text
             then Some (join '' || '' (props_parts (or_nil (c_card_faces c)) []))
             else oracle_text)
      in or_empty oracle_text)"

text \<open>
  \<^verbatim>\<open>json.dumps(legalities, separators=(",", ":")) if legalities else ""\<close>: an empty or
  absent mapping gives \<^verbatim>\<open>""\<close>.
\<close>

definition legalities_str :: "'f library \<Rightarrow> 'f card \<Rightarrow> string" where
  "legalities_str lib c =
     (case c_legalities c of
        None \<Rightarrow> []
      | Some legalities \<Rightarrow> if legalities = [] then [] else lib_dumps lib legalities)"

text \<open>
  Line 151: \<^verbatim>\<open>float(card.get("cmc")) if card.get("cmc") is not None else None\<close>, a value
  or the exception that \<^verbatim>\<open>float\<close> raises.
\<close>

definition cmc_value :: "'f library \<Rightarrow> 'f card \<Rightarrow> error + 'f pvalue" where
  "cmc_value lib c =
     (case c_cmc c of
        None \<Rightarrow> Inr PNone
      | Some x \<Rightarrow> (case py_float lib x of Inl e \<Rightarrow> Inl e | Inr y \<Rightarrow> Inr (PFloat y)))"

text \<open>
  Line 159:
  \<^verbatim>\<open>int(card.get("edhrec_rank")) if card.get("edhrec_rank") is not None else None\<close>.
\<close>

definition edhrec_rank_value :: "'f library \<Rightarrow> 'f card \<Rightarrow> error + 'f pvalue" where
  "edhrec_rank_value lib c =
     (case c_edhrec_rank c of
        None \<Rightarrow> Inr PNone
      | Some x \<Rightarrow> (case py_int lib x of Inl e \<Rightarrow> Inl e | Inr n \<Rightarrow> Inr (PInt n)))"

text \<open>
  The dictionary returned by \<^verbatim>\<open>extract_props\<close>, its keys in source order, or the
  exception raised while its values are computed. The values are computed in source
  order, so of the two conversions that of \<^verbatim>\<open>cmc\<close> raises first; no other value of the
  dictionary can raise.
\<close>

definition extract_props :: "'f library \<Rightarrow> 'f card \<Rightarrow> error + 'f props" where
  "extract_props lib c =
     (case cmc_value lib c of
        Inl e \<Rightarrow> Inl e
      | Inr cmc \<Rightarrow>
          (case edhrec_rank_value lib c of
             Inl e \<Rightarrow> Inl e
           | Inr edhrec_rank \<Rightarrow>
               Inr [(''scryfall_id'', get_str (c_id c)),
                    (''name'', get_str (c_name c)),
                    (''mana_cost'', PStr (or_empty (c_mana_cost c))),
                    (''cmc'', cmc),
                    (''type_line'', PStr (or_empty (c_type_line c))),
                    (''oracle_text'', PStr (props_oracle_text c)),
                    (''power'', PStr (or_empty (c_power c))),
                    (''toughness'', PStr (or_empty (c_toughness c))),
                    (''colors'', PList (or_nil (c_colors c))),
                    (''color_identity'', PList (or_nil (c_color_identity c))),
                    (''keywords'', PList (or_nil (c_keywords c))),
                    (''edhrec_rank'', edhrec_rank),
                    (''set'', PStr (or_empty (c_set c))),
                    (''collector_number'', PStr (or_empty (c_collector_number c))),
                    (''rarity'', PStr (or_empty (c_rarity c))),
                    (''layout'', PStr (or_empty (c_layout c))),
                    (''image_small'', PStr (get_image c ''small'')),
                    (''image_normal'', PStr (get_image c ''normal'')),
                    (''legalities'', PStr (legalities_str lib c))]))"

text \<open>Line 255: \<^verbatim>\<open>{k: v for k, v in props.items() if v is not None}\<close>.\<close>

definition clean_props :: "'f props \<Rightarrow> 'f props" where
  "clean_props ps = filter (\<lambda>(k, v). v \<noteq> PNone) ps"

section \<open>make\_dummy\_vectors.py: the oracle text of its extract\_props\<close>

text \<open>
  Lines 32 to 36 of \<^verbatim>\<open>make_dummy_vectors.py\<close>: a list comprehension over the faces
  instead of the loop.
\<close>

definition dummy_props_oracle_text :: "'f card \<Rightarrow> string" where
  "dummy_props_oracle_text c =
     (let oracle_text = or_empty (c_oracle_text c);
          oracle_text =
            (if oracle_text = []
             then join '' || ''
                    (map (\<lambda>f. or_empty (f_oracle_text f))
                       (filter (\<lambda>f. truthy (f_oracle_text f)) (or_nil (c_card_faces c))))
             else oracle_text)
      in oracle_text)"

section \<open>embed\_cards.py: normalisation and batched encoding\<close>

text \<open>
  Lines 73 to 78. \<^verbatim>\<open>sum\<close> of no floats is the integer 0, for which \<^verbatim>\<open>s <= 0\<close> holds.
  Every operation on floats is the library's. Where the function applies them,
  \<^verbatim>\<open>math.sqrt\<close> and \<^verbatim>\<open>/\<close> do not raise: \<open>s\<close> is a float for which \<^verbatim>\<open>s <= 0\<close> is false,
  so it is positive, an infinity or a NaN, and its square root is not zero.
\<close>

definition l2_normalize :: "'f library \<Rightarrow> 'f list \<Rightarrow> 'f list" where
  "l2_normalize lib vec =
     (let squares = map (\<lambda>v. lib_mul lib v v) vec
      in if squares = [] then vec
         else let s = lib_sum lib squares
              in if lib_le_zero lib s then vec
                 else let n = lib_sqrt lib s in map (\<lambda>v. lib_div lib v n) vec)"

text \<open>
  The encoder is \<^verbatim>\<open>model.encode\<close>, called on one batch of texts, with the conversion of
  its rows to lists of floats: any function from a list of texts to a list of rows.
\<close>

type_synonym 'f encoder = "string list \<Rightarrow> 'f list list"

text \<open>
  The loop of lines 236 to 249: \<open>i\<close> runs over \<^verbatim>\<open>range(0, len(texts), batch_size)\<close>,
  the batch is \<^verbatim>\<open>texts[i:i+batch_size]\<close>, every row is normalised and appended. Both
  branches on \<open>kind\<close> do the same with the rows.
\<close>

function embed_loop ::
  "'f library \<Rightarrow> 'f encoder \<Rightarrow> nat \<Rightarrow> string list \<Rightarrow> nat \<Rightarrow> 'f list list \<Rightarrow> 'f list list" where
  "embed_loop lib enc batch_size texts i vectors =
     (if batch_size = 0 \<or> length texts \<le> i then vectors
      else embed_loop lib enc batch_size texts (i + batch_size)
             (vectors @ map (l2_normalize lib) (enc (take batch_size (drop i texts)))))"
  by pat_completeness auto
termination
  by (relation "measure (\<lambda>(lib, enc, batch_size, texts, i, vectors). length texts - i)") auto

text \<open>A step of 0 makes \<^verbatim>\<open>range\<close> raise \<^verbatim>\<open>ValueError\<close>.\<close>

definition encode_all ::
  "'f library \<Rightarrow> 'f encoder \<Rightarrow> nat \<Rightarrow> string list \<Rightarrow> error + 'f list list" where
  "encode_all lib enc batch_size texts =
     (if batch_size = 0 then Inl ValueError
      else Inr (embed_loop lib enc batch_size texts 0 []))"

declare embed_loop.simps [simp del]

section \<open>embed\_cards.py: the driver\<close>

record cli_args =
  arg_batch_out :: string
  arg_model :: string
  arg_include_name :: bool
  arg_limit :: int
  arg_offset :: int
  arg_checkpoint :: string

text \<open>The tag returned by \<^verbatim>\<open>load_model\<close>: \<^verbatim>\<open>"st"\<close> or \<^verbatim>\<open>"hf"\<close>.\<close>

datatype kind = ST | HF

record 'f output_object =
  o_class :: string
  o_id :: string
  o_properties :: "'f props"
  o_vector :: "'f list"

text \<open>The dictionary \<open>state\<close> written to the checkpoint file (lines 273 to 280).\<close>

record checkpoint_state =
  cp_next_offset :: int
  cp_total :: int
  cp_last_batch_out :: string
  cp_model :: string
  cp_include_name :: bool
  cp_kind :: kind

text \<open>
  What \<^verbatim>\<open>int(state.get("next_offset", 0))\<close> meets in a JSON object: no such key, a value
  on which \<^verbatim>\<open>int\<close> returns \<open>n\<close>, or a value on which \<^verbatim>\<open>int\<close> raises (\<^verbatim>\<open>null\<close>, a
  string that is no number, a list).
\<close>

datatype json_field = NoKey | IntValue int | BadValue

text \<open>
  A file as the driver sees it. \<open>Unreadable\<close> is a file that exists while \<^verbatim>\<open>open\<close>,
  \<^verbatim>\<open>json.load\<close> or \<^verbatim>\<open>state.get\<close> raises on it: no permission, content that is not
  JSON (an empty or truncated file is such), or JSON that is not an object.
  \<open>JsonObject\<close> is any other JSON object, of which only the \<^verbatim>\<open>next_offset\<close> entry
  matters to the driver.
\<close>

datatype 'f disk_file =
    NoFile
  | Unreadable
  | JsonObject json_field
  | CheckpointFile checkpoint_state
  | BatchFile "'f output_object list"

type_synonym 'f files = "string \<Rightarrow> 'f disk_file"

datatype message =
    WarnReadCheckpoint
  | WroteBatch nat string
  | UpdatedCheckpoint string int int
  | WarnWriteCheckpoint

text \<open>
  The outcome of the first two statements of the \<^verbatim>\<open>try\<close> block (lines 200 to 202):
  \<^verbatim>\<open>FileNotFoundError\<close>, another exception, or the value of \<open>cp_off\<close>.
\<close>

datatype cp_read = NotFound | Raised | CpOff int

fun read_cp_off :: "'f disk_file \<Rightarrow> cp_read" where
  "read_cp_off NoFile = NotFound"
| "read_cp_off Unreadable = Raised"
| "read_cp_off (JsonObject NoKey) = CpOff 0"
| "read_cp_off (JsonObject (IntValue n)) = CpOff n"
| "read_cp_off (JsonObject BadValue) = Raised"
| "read_cp_off (CheckpointFile st) = CpOff (cp_next_offset st)"
| "read_cp_off (BatchFile objs) = CpOff 0"

text \<open>Lines 197 to 208: the start offset and what was printed.\<close>

definition resolve_start_offset :: "cli_args \<Rightarrow> 'f files \<Rightarrow> int \<times> message list" where
  "resolve_start_offset args fs =
     (let start_offset = arg_offset args
      in if arg_checkpoint args \<noteq> []
         then (case read_cp_off (fs (arg_checkpoint args)) of
                 CpOff cp_off \<Rightarrow>
                   (if start_offset = 0 \<and> cp_off > 0 then (cp_off, []) else (start_offset, []))
               | NotFound \<Rightarrow> (start_offset, [])
               | Raised \<Rightarrow> (start_offset, [WarnReadCheckpoint]))
         else (start_offset, []))"

text \<open>The variables of the windowing loop (lines 211 to 216).\<close>

record 'f window =
  w_texts :: "string list"
  w_idx_map :: "(string \<times> 'f props) list"
  w_i :: int
  w_processed :: int

definition window_init :: "'f window" where
  "window_init = \<lparr>w_texts = [], w_idx_map = [], w_i = 0, w_processed = 0\<rparr>"

text \<open>
  The body of the loop (lines 218 to 231) on one card: the variables after it, and
  whether it left the loop with \<^verbatim>\<open>break\<close>; or the exception that \<^verbatim>\<open>extract_props\<close>
  raises, which nothing catches.
\<close>

definition window_body ::
  "cli_args \<Rightarrow> 'f library \<Rightarrow> int \<Rightarrow> 'f card \<Rightarrow> 'f window \<Rightarrow> error + 'f window \<times> bool" where
  "window_body args lib start_offset c w =
     (if w_i w < start_offset then Inr (w\<lparr>w_i := w_i w + 1\<rparr>, False)
      else let cid = c_id c
           in if \<not> truthy cid then Inr (w, False)
              else case extract_props lib c of
                     Inl e \<Rightarrow> Inl e
                   | Inr props \<Rightarrow>
                       let text = build_embed_text c (arg_include_name args);
                           w = w\<lparr>w_texts := w_texts w @ [text]\<rparr>;
                           w = w\<lparr>w_idx_map := w_idx_map w @ [(or_empty cid, props)]\<rparr>;
                           w = w\<lparr>w_processed := w_processed w + 1\<rparr>;
                           w = w\<lparr>w_i := w_i w + 1\<rparr>
                       in Inr (w, arg_limit args \<noteq> 0 \<and> w_processed w \<ge> arg_limit args))"

text \<open>
  \<^verbatim>\<open>for c in cards\<close>: \<open>pos\<close> is the position of the list iterator, the number of cards
  it has handed to the body. The loop returns the variables and the position one past
  the last card the body has seen, or the exception raised in the body.
\<close>

fun window_loop ::
  "cli_args \<Rightarrow> 'f library \<Rightarrow> int \<Rightarrow> 'f card list \<Rightarrow> nat \<Rightarrow> 'f window \<Rightarrow> error + 'f window \<times> nat" where
  "window_loop args lib start_offset [] pos w = Inr (w, pos)"
| "window_loop args lib start_offset (c # cs) pos w =
     (case window_body args lib start_offset c w of
        Inl e \<Rightarrow> Inl e
      | Inr (w', left) \<Rightarrow>
          if left then Inr (w', Suc pos)
          else window_loop args lib start_offset cs (Suc pos) w')"

text \<open>Lines 253 to 262.\<close>

definition make_object :: "(string \<times> 'f props) \<times> 'f list \<Rightarrow> 'f output_object" where
  "make_object = (\<lambda>((cid, props), vec).
     \<lparr>o_class = ''Card'', o_id = cid, o_properties = clean_props props, o_vector = vec\<rparr>)"

definition assemble ::
  "(string \<times> 'f props) list \<Rightarrow> 'f list list \<Rightarrow> 'f output_object list" where
  "assemble idx_map vectors = map make_object (zip idx_map vectors)"

text \<open>
  How a write of a file ends. \<^verbatim>\<open>open(path, "w")\<close> either raises and leaves the file as
  it was, or empties the file; after that \<^verbatim>\<open>json.dump\<close>, or the flush when the file is
  closed, either completes or raises and leaves the file truncated.
\<close>

datatype write_end = Written | OpenRaises | DumpRaises

record faults =
  batch_write :: write_end
  checkpoint_write :: write_end

text \<open>Lines 271 to 286, for a checkpoint path that is not empty.\<close>

definition commit ::
  "cli_args \<Rightarrow> kind \<Rightarrow> int \<Rightarrow> 'f output_object list \<Rightarrow> int \<Rightarrow> write_end \<Rightarrow> 'f files
     \<Rightarrow> 'f files \<times> message list" where
  "commit args knd start_offset objects total_cards wr fs =
     (let next_offset = start_offset + int (length objects);
          state = \<lparr>cp_next_offset = next_offset, cp_total = total_cards,
                   cp_last_batch_out = arg_batch_out args, cp_model = arg_model args,
                   cp_include_name = arg_include_name args, cp_kind = knd\<rparr>
      in case wr of
           Written \<Rightarrow>
             (fs(arg_checkpoint args := CheckpointFile state),
              [UpdatedCheckpoint (arg_checkpoint args) next_offset total_cards])
         | OpenRaises \<Rightarrow> (fs, [WarnWriteCheckpoint])
         | DumpRaises \<Rightarrow> (fs(arg_checkpoint args := Unreadable), [WarnWriteCheckpoint]))"

text \<open>Line 234.\<close>

definition batch_size_of :: "kind \<Rightarrow> nat" where
  "batch_size_of knd = (if knd = HF then 32 else 64)"

text \<open>
  Lines 210 to 262 of \<^verbatim>\<open>main\<close>: the list \<open>objects\<close> for a resolved start offset, or
  the exception raised on the way. The assertion of line 251 fails when the encoder
  returns another number of rows than it was given texts.
\<close>

definition compute_objects ::
  "cli_args \<Rightarrow> kind \<Rightarrow> 'f encoder \<Rightarrow> 'f library \<Rightarrow> 'f card list \<Rightarrow> int
     \<Rightarrow> error + 'f output_object list" where
  "compute_objects args knd enc lib cards start_offset =
     (case window_loop args lib start_offset cards 0 window_init of
        Inl e \<Rightarrow> Inl e
      | Inr (w, pos) \<Rightarrow>
          (case encode_all lib enc (batch_size_of knd) (w_texts w) of
             Inl e \<Rightarrow> Inl e
           | Inr vectors \<Rightarrow>
               if length vectors \<noteq> length (w_idx_map w) then Inl AssertionError
               else Inr (assemble (w_idx_map w) vectors)))"

text \<open>
  \<^verbatim>\<open>main\<close> from line 196 on, for the loaded model \<open>(knd, enc)\<close> and the loaded list
  \<open>cards\<close>. It returns the files after the run and what was printed, or the exception
  that ended the run. A write of the batch file that fails is not caught.
\<close>

definition main ::
  "cli_args \<Rightarrow> kind \<Rightarrow> 'f encoder \<Rightarrow> 'f library \<Rightarrow> 'f card list \<Rightarrow> faults \<Rightarrow> 'f files
     \<Rightarrow> error + 'f files \<times> message list" where
  "main args knd enc lib cards flt fs =
     (let (start_offset, out0) = resolve_start_offset args fs;
          total_cards = int (length cards)
      in case compute_objects args knd enc lib cards start_offset of
           Inl e \<Rightarrow> Inl e
         | Inr objects \<Rightarrow>
             if batch_write flt \<noteq> Written then Inl OSError
             else let fs = fs(arg_batch_out args := BatchFile objects);
                      out1 = out0 @ [WroteBatch (length objects) (arg_batch_out args)]
                  in if arg_checkpoint args \<noteq> []
                     then let (fs, out2) =
                                commit args knd start_offset objects total_cards
                                  (checkpoint_write flt) fs
                          in Inr (fs, out1 @ out2)
                     else Inr (fs, out1))"

section \<open>Sample inputs\<close>

text \<open>
  The library of exact arithmetic: the real numbers in the place of the floats, no
  operation rounds, overflows or underflows; its serialiser returns the empty string.
  It is the library of the sample runs, which are over the numbers 0, 1, 2, 2.5, 3, 4
  and 5: on these the arithmetic and the conversions of doubles give the same results.
\<close>

definition exact_lib :: "real library" where
  "exact_lib =
     \<lparr>lib_dumps = (\<lambda>l. []),
      lib_float = (\<lambda>n. Inr (of_int n)),
      lib_int = (\<lambda>x. Inr (if 0 \<le> x then \<lfloor>x\<rfloor> else \<lceil>x\<rceil>)),
      lib_mul = (\<lambda>x y. x * y),
      lib_sum = sum_list,
      lib_le_zero = (\<lambda>s. s \<le> 0),
      lib_sqrt = sqrt,
      lib_div = (\<lambda>x y. x / y)\<rparr>"

text \<open>
  A library whose \<^verbatim>\<open>float\<close> raises on the integers from \<open>2 ^ 1024\<close> on, where that
  of doubles raises too, and is the exact library otherwise.
\<close>

definition bounded_lib :: "real library" where
  "bounded_lib =
     exact_lib\<lparr>lib_float :=
       (\<lambda>n. if 2 ^ 1024 \<le> \<bar>n\<bar> then Inl OverflowError else Inr (of_int n))\<rparr>"

definition empty_face :: face where
  "empty_face = \<lparr>f_type_line = None, f_oracle_text = None, f_image_uris = None\<rparr>"

text \<open>The card \<^verbatim>\<open>{}\<close>.\<close>

definition empty_card :: "real card" where
  "empty_card =
     \<lparr>c_id = None, c_name = None, c_mana_cost = None, c_cmc = None, c_type_line = None,
      c_oracle_text = None, c_power = None, c_toughness = None, c_colors = None,
      c_color_identity = None, c_keywords = None, c_edhrec_rank = None, c_set = None,
      c_collector_number = None, c_rarity = None, c_layout = None, c_image_uris = None,
      c_legalities = None, c_card_faces = None\<rparr>"

text \<open>The card \<^verbatim>\<open>{"id": s}\<close>.\<close>

definition card_with_id :: "string \<Rightarrow> real card" where
  "card_with_id s = empty_card\<lparr>c_id := Some s\<rparr>"

text \<open>A card of two printed faces and an empty one between them, with no text of its own.\<close>

definition two_faced :: "real card" where
  "two_faced = empty_card\<lparr>c_id := Some ''dfc'', c_oracle_text := Some [], c_card_faces := Some
     [empty_face\<lparr>f_type_line := Some ''Creature'', f_oracle_text := Some ''Flying''\<rparr>,
      empty_face,
      empty_face\<lparr>f_type_line := Some ''Land''\<rparr>]\<rparr>"

definition bolt :: "real card" where
  "bolt = empty_card\<lparr>c_id := Some ''a'', c_name := Some ''Bolt'', c_type_line := Some ''Instant'',
     c_mana_cost := Some ''{R}'', c_cmc := Some (JFloat 1), c_colors := Some [''R'', ''X''],
     c_oracle_text := Some ''Deal 3.''\<rparr>"

text \<open>Five cards, the second without an identifier.\<close>

definition cards5 :: "real card list" where
  "cards5 = [card_with_id ''a'', empty_card, card_with_id ''b'', card_with_id ''c'',
             card_with_id ''d'']"

text \<open>\<^verbatim>\<open>--batch-out out.json --checkpoint cp.json --limit 2\<close>.\<close>

definition args0 :: cli_args where
  "args0 = \<lparr>arg_batch_out = ''out.json'', arg_model = ''m'', arg_include_name = False,
            arg_limit = 2, arg_offset = 0, arg_checkpoint = ''cp.json''\<rparr>"

definition no_faults :: faults where
  "no_faults = \<lparr>batch_write = Written, checkpoint_write = Written\<rparr>"



text \<open>An encoder that gives every text the same one-dimensional vector.\<close>

definition unit_encoder :: "real encoder" where
  "unit_encoder batch = map (\<lambda>t. [1]) batch"

text \<open>An encoder that gives a text its length, and with it the zero vector to the empty text.\<close>

definition length_encoder :: "real encoder" where
  "length_encoder batch = map (\<lambda>t. [real (length t), 0]) batch"


text \<open>A checkpoint as an earlier run over five cards would have left it.\<close>

definition prior_checkpoint :: checkpoint_state where
  "prior_checkpoint = \<lparr>cp_next_offset = 2, cp_total = 5, cp_last_batch_out = ''out.json'',
     cp_model = ''m'', cp_include_name = False, cp_kind = ST\<rparr>"

section \<open>Notions the properties are stated with\<close>


text \<open>The identifiers and the vectors in a batch file.\<close>

definition batch_ids :: "'f disk_file \<Rightarrow> string list" where
  "batch_ids f = (case f of BatchFile objs \<Rightarrow> map o_id objs | _ \<Rightarrow> [])"


section \<open>The embedding text\<close>

lemma truthy_or_empty: "truthy x = (or_empty x \<noteq> [])"
  by (cases x) simp_all

lemma embed_parts_append:
  "embed_parts fs parts =
     parts @ map (\<lambda>f. or_empty (f_type_line f) @ '' :: '' @ or_empty (f_oracle_text f))
               (filter (\<lambda>f. truthy (f_type_line f) \<or> truthy (f_oracle_text f)) fs)"
  by (induction fs arbitrary: parts) (simp_all add: Let_def truthy_or_empty)

lemma embed_oracle_text_fallback:
  "\<not> truthy (c_oracle_text c) \<Longrightarrow>
     embed_oracle_text c =
        join '' || ''
          (map (\<lambda>f. or_empty (f_type_line f) @ '' :: '' @ or_empty (f_oracle_text f))
             (filter (\<lambda>f. truthy (f_type_line f) \<or> truthy (f_oracle_text f))
                (or_nil (c_card_faces c))))"
  by (simp add: embed_oracle_text_def Let_def embed_parts_append)

lemma embed_fields_closed:
  "embed_fields c inc =
     (if inc \<and> truthy (c_name c) then [''Name: '' @ or_empty (c_name c)] else []) @
     (if truthy (c_type_line c) then [''Type: '' @ or_empty (c_type_line c)] else []) @
     (if truthy (c_mana_cost c) then [''ManaCost: '' @ or_empty (c_mana_cost c)] else []) @
     [''Colors: '' @ colors_to_words (or_nil (c_colors c))] @
     (if embed_oracle_text c \<noteq> [] then [''Oracle: '' @ embed_oracle_text c] else [])"
  by (simp add: embed_fields_def Let_def)

text \<open>
  C2. When the card has no oracle text of its own (absent or empty), the oracle value of
  the embedding text is the \<^verbatim>\<open>" || "\<close>-join, in face order, of
  \<^verbatim>\<open>"<type line> :: <oracle text>"\<close> over the faces whose type line or oracle text is not
  empty. When no face qualifies the value is empty and no line of the output starts with
  \<^verbatim>\<open>"Oracle: "\<close>. When the card has an oracle text of its own, that text is the value,
  unchanged, and it is the last line of the output.
\<close>

theorem embed_oracle_text_rule:
  "(\<not> truthy (c_oracle_text c) \<longrightarrow>
      embed_oracle_text c =
        join '' || ''
          (map (\<lambda>f. or_empty (f_type_line f) @ '' :: '' @ or_empty (f_oracle_text f))
             (filter (\<lambda>f. truthy (f_type_line f) \<or> truthy (f_oracle_text f))
                (or_nil (c_card_faces c)))))
   \<and> (\<not> truthy (c_oracle_text c)
        \<and> filter (\<lambda>f. truthy (f_type_line f) \<or> truthy (f_oracle_text f))
             (or_nil (c_card_faces c)) = [] \<longrightarrow>
        embed_oracle_text c = [] \<and> (\<forall>x. ''Oracle: '' @ x \<notin> set (embed_fields c inc)))
   \<and> (\<forall>t. c_oracle_text c = Some t \<and> t \<noteq> [] \<longrightarrow>
        embed_oracle_text c = t \<and> last (embed_fields c inc) = ''Oracle: '' @ t)
   \<and> build_embed_text c inc = join [CHR 0x0A] (embed_fields c inc)"
proof (intro conjI impI allI)
  assume "\<not> truthy (c_oracle_text c)"
  then show "embed_oracle_text c =
        join '' || ''
          (map (\<lambda>f. or_empty (f_type_line f) @ '' :: '' @ or_empty (f_oracle_text f))
             (filter (\<lambda>f. truthy (f_type_line f) \<or> truthy (f_oracle_text f))
                (or_nil (c_card_faces c))))"
    by (rule embed_oracle_text_fallback)
next
  assume a: "\<not> truthy (c_oracle_text c)
        \<and> filter (\<lambda>f. truthy (f_type_line f) \<or> truthy (f_oracle_text f))
             (or_nil (c_card_faces c)) = []"
  then show e: "embed_oracle_text c = []"
    by (simp add: embed_oracle_text_fallback)
  show "\<And>x. ''Oracle: '' @ x \<notin> set (embed_fields c inc)"
    by (simp add: embed_fields_closed e)
next
  fix t assume t: "c_oracle_text c = Some t \<and> t \<noteq> []"
  then show e: "embed_oracle_text c = t"
    by (simp add: embed_oracle_text_def Let_def)
  show "last (embed_fields c inc) = ''Oracle: '' @ t"
    using t by (simp add: embed_fields_closed e)
next
  show "build_embed_text c inc = join [CHR 0x0A] (embed_fields c inc)"
    by (simp add: build_embed_text_def)
qed

theorem embed_oracle_text_rule_witness:
  "embed_oracle_text two_faced = ''Creature :: Flying || Land :: ''
   \<and> embed_oracle_text (empty_card\<lparr>c_card_faces := Some [empty_face]\<rparr>) = []
   \<and> embed_fields (empty_card\<lparr>c_card_faces := Some [empty_face]\<rparr>) True = [''Colors: Colorless'']
   \<and> embed_oracle_text bolt = ''Deal 3.''
   \<and> last (embed_fields bolt False) = ''Oracle: Deal 3.''"
  using embed_oracle_text_rule [of two_faced True]
    embed_oracle_text_rule [of "empty_card\<lparr>c_card_faces := Some [empty_face]\<rparr>" True]
    embed_oracle_text_rule [of bolt False]
  by (simp add: two_faced_def bolt_def empty_card_def empty_face_def embed_fields_closed
      colors_to_words_def)

text \<open>
  C3. The embedding text is the newline-join of the labelled lines in the order Name,
  Type, ManaCost, Colors, Oracle. The Name line is there exactly when the flag is set and
  the name is a non-empty string, the Type and ManaCost lines exactly when their field is
  a non-empty string, the Oracle line exactly when the resolved oracle text is not empty,
  and the Colors line always. Absent or empty colors read \<^verbatim>\<open>Colorless\<close>; otherwise
  the codes W, U, B, R, G become White, Blue, Black, Red, Green, any other code stays as
  it is, and the words are joined with \<^verbatim>\<open>/\<close>. The text depends on the card and the flag
  only.
\<close>

theorem build_embed_text_lines:
  "build_embed_text c inc =
     join [CHR 0x0A]
       ((if inc \<and> truthy (c_name c) then [''Name: '' @ or_empty (c_name c)] else []) @
        (if truthy (c_type_line c) then [''Type: '' @ or_empty (c_type_line c)] else []) @
        (if truthy (c_mana_cost c) then [''ManaCost: '' @ or_empty (c_mana_cost c)] else []) @
        [''Colors: '' @ colors_to_words (or_nil (c_colors c))] @
        (if embed_oracle_text c \<noteq> [] then [''Oracle: '' @ embed_oracle_text c] else []))
   \<and> colors_to_words [] = ''Colorless''
   \<and> (colors \<noteq> [] \<longrightarrow> colors_to_words colors = join ''/'' (map mapping_get colors))
   \<and> mapping_get ''W'' = ''White'' \<and> mapping_get ''U'' = ''Blue''
   \<and> mapping_get ''B'' = ''Black'' \<and> mapping_get ''R'' = ''Red''
   \<and> mapping_get ''G'' = ''Green''
   \<and> (code \<notin> {''W'', ''U'', ''B'', ''R'', ''G''} \<longrightarrow> mapping_get code = code)
   \<and> (c' = c \<and> inc' = inc \<longrightarrow> build_embed_text c' inc' = build_embed_text c inc)"
  by (simp add: build_embed_text_def embed_fields_closed colors_to_words_def mapping_get_def
      mapping_def)

theorem build_embed_text_lines_witness:
  "build_embed_text bolt True =
     ''Name: Bolt\<newline>Type: Instant\<newline>ManaCost: {R}\<newline>Colors: Red/X\<newline>Oracle: Deal 3.''
   \<and> build_embed_text bolt False =
     ''Type: Instant\<newline>ManaCost: {R}\<newline>Colors: Red/X\<newline>Oracle: Deal 3.''
   \<and> build_embed_text empty_card True = ''Colors: Colorless''
   \<and> colors_to_words [''R'', ''X''] = ''Red/X''
   \<and> mapping_get ''X'' = ''X''"
  using build_embed_text_lines [of bolt True "[''R'', ''X'']" "''X''" bolt True]
    build_embed_text_lines [of bolt False "[''R'', ''X'']" "''X''" bolt False]
    build_embed_text_lines [of empty_card True "[''R'', ''X'']" "''X''" empty_card True]
  by (simp add: bolt_def empty_card_def embed_oracle_text_def)

section \<open>The stored properties\<close>

lemma props_parts_append:
  "props_parts fs parts =
     parts @ filter (\<lambda>s. s \<noteq> []) (map (\<lambda>f. or_empty (f_oracle_text f)) fs)"
  by (induction fs arbitrary: parts) (simp_all add: Let_def)

lemma props_oracle_text_fallback:
  "\<not> truthy (c_oracle_text c) \<Longrightarrow>
     props_oracle_text c =
       join '' || ''
         (filter (\<lambda>s. s \<noteq> []) (map (\<lambda>f. or_empty (f_oracle_text f)) (or_nil (c_card_faces c))))"
  by (simp add: props_oracle_text_def Let_def props_parts_append)

lemma dummy_props_oracle_text_eq: "dummy_props_oracle_text c = props_oracle_text c"
  by (cases "c_oracle_text c")
     (simp_all add: dummy_props_oracle_text_def props_oracle_text_def Let_def props_parts_append
        filter_map comp_def truthy_or_empty)

lemma props_oracle_ignores_type_lines:
  "props_oracle_text
     (c\<lparr>c_card_faces := map_option (map (\<lambda>f. f\<lparr>f_type_line := g f\<rparr>)) (c_card_faces c)\<rparr>)
     = props_oracle_text c"
  by (cases "c_card_faces c")
     (simp_all add: props_oracle_text_def Let_def props_parts_append comp_def)

lemma length_join:
  "length (join sep xs) = sum_list (map length xs) + length sep * (length xs - 1)"
  by (induction sep xs rule: join.induct) simp_all

lemma count_nonempty:
  "length (filter (\<lambda>s. s \<noteq> []) (map (\<lambda>f. or_empty (f_oracle_text f)) fs))
   \<le> length (filter (\<lambda>f. truthy (f_type_line f) \<or> truthy (f_oracle_text f)) fs)"
  by (induction fs) (auto simp: truthy_or_empty)

lemma sum_frag:
  "sum_list (map length (filter (\<lambda>s. s \<noteq> []) (map (\<lambda>f. or_empty (f_oracle_text f)) fs)))
     + 4 * length (filter (\<lambda>f. truthy (f_type_line f) \<or> truthy (f_oracle_text f)) fs)
   \<le> sum_list (map (\<lambda>f. length (or_empty (f_type_line f) @ '' :: '' @ or_empty (f_oracle_text f)))
        (filter (\<lambda>f. truthy (f_type_line f) \<or> truthy (f_oracle_text f)) fs))"
  by (induction fs) (auto simp: truthy_or_empty)

text \<open>
  Whenever a face contributes to the embedding text, the two oracle values differ: the
  one of the embedding text is the longer.
\<close>

lemma embed_longer:
  assumes "\<not> truthy (c_oracle_text c)"
    and "filter (\<lambda>f. truthy (f_type_line f) \<or> truthy (f_oracle_text f)) (or_nil (c_card_faces c)) \<noteq> []"
  shows "length (props_oracle_text c) < length (embed_oracle_text c)"
proof -
  let ?fs = "or_nil (c_card_faces c)"
  let ?Q = "filter (\<lambda>f. truthy (f_type_line f) \<or> truthy (f_oracle_text f)) ?fs"
  let ?P = "filter (\<lambda>s. s \<noteq> []) (map (\<lambda>f. or_empty (f_oracle_text f)) ?fs)"
  have k: "0 < length ?Q" using assms(2) by simp
  have "length (props_oracle_text c) = sum_list (map length ?P) + 4 * (length ?P - 1)"
    by (simp add: props_oracle_text_fallback [OF assms(1)] length_join)
  also have "\<dots> \<le> sum_list (map length ?P) + 4 * (length ?Q - 1)"
    using count_nonempty [of ?fs] by simp
  also have "\<dots> < sum_list (map length ?P) + 4 * length ?Q + 4 * (length ?Q - 1)"
    using k by simp
  also have "\<dots> \<le> sum_list (map (\<lambda>f. length (or_empty (f_type_line f) @ '' :: '' @ or_empty (f_oracle_text f))) ?Q)
      + 4 * (length ?Q - 1)"
    using sum_frag [of ?fs] by simp
  also have "\<dots> = length (embed_oracle_text c)"
    by (simp add: embed_oracle_text_fallback [OF assms(1)] length_join comp_def)
  finally show ?thesis .
qed

lemma extract_props_Inr:
  "(extract_props lib c = Inr ps) =
     (\<exists>cmc rank. cmc_value lib c = Inr cmc \<and> edhrec_rank_value lib c = Inr rank
        \<and> ps = [(''scryfall_id'', get_str (c_id c)),
                 (''name'', get_str (c_name c)),
                 (''mana_cost'', PStr (or_empty (c_mana_cost c))),
                 (''cmc'', cmc),
                 (''type_line'', PStr (or_empty (c_type_line c))),
                 (''oracle_text'', PStr (props_oracle_text c)),
                 (''power'', PStr (or_empty (c_power c))),
                 (''toughness'', PStr (or_empty (c_toughness c))),
                 (''colors'', PList (or_nil (c_colors c))),
                 (''color_identity'', PList (or_nil (c_color_identity c))),
                 (''keywords'', PList (or_nil (c_keywords c))),
                 (''edhrec_rank'', rank),
                 (''set'', PStr (or_empty (c_set c))),
                 (''collector_number'', PStr (or_empty (c_collector_number c))),
                 (''rarity'', PStr (or_empty (c_rarity c))),
                 (''layout'', PStr (or_empty (c_layout c))),
                 (''image_small'', PStr (get_image c ''small'')),
                 (''image_normal'', PStr (get_image c ''normal'')),
                 (''legalities'', PStr (legalities_str lib c))])"
  by (auto simp: extract_props_def split: sum.splits)

text \<open>
  C4. The \<^verbatim>\<open>oracle_text\<close> property, in every dictionary that \<^verbatim>\<open>extract_props\<close>
  returns, is the value computed by lines 134 to 142 and 153.
  When the card has no oracle text of its own, it is the \<^verbatim>\<open>" || "\<close>-join, in face
  order, of the non-empty face oracle texts; the same holds in
  \<^verbatim>\<open>make_dummy_vectors.py\<close>. The face type lines have no part in it: replacing them by
  anything leaves the value as it is. The value of the embedding text is built with the
  type lines, and it is strictly longer than the property whenever some face has a
  non-empty type line or oracle text.
\<close>

theorem props_oracle_text_faces_only:
  "(\<forall>ps. extract_props lib c = Inr ps \<longrightarrow>
      map_of ps ''oracle_text'' = Some (PStr (props_oracle_text c)))
   \<and> (\<not> truthy (c_oracle_text c) \<longrightarrow>
        props_oracle_text c =
          join '' || ''
            (filter (\<lambda>s. s \<noteq> [])
               (map (\<lambda>f. or_empty (f_oracle_text f)) (or_nil (c_card_faces c))))
        \<and> dummy_props_oracle_text c = props_oracle_text c
        \<and> props_oracle_text
            (c\<lparr>c_card_faces :=
                 map_option (map (\<lambda>f. f\<lparr>f_type_line := g f\<rparr>)) (c_card_faces c)\<rparr>)
          = props_oracle_text c
        \<and> embed_oracle_text c =
            join '' || ''
              (map (\<lambda>f. or_empty (f_type_line f) @ '' :: '' @ or_empty (f_oracle_text f))
                 (filter (\<lambda>f. truthy (f_type_line f) \<or> truthy (f_oracle_text f))
                    (or_nil (c_card_faces c))))
        \<and> (filter (\<lambda>f. truthy (f_type_line f) \<or> truthy (f_oracle_text f))
              (or_nil (c_card_faces c)) \<noteq> [] \<longrightarrow>
            length (props_oracle_text c) < length (embed_oracle_text c)))"
proof (intro conjI impI allI)
  fix ps
  assume "extract_props lib c = Inr ps"
  then show "map_of ps ''oracle_text'' = Some (PStr (props_oracle_text c))"
    by (auto simp: extract_props_Inr)
next
  assume a: "\<not> truthy (c_oracle_text c)"
  show "props_oracle_text c =
          join '' || ''
            (filter (\<lambda>s. s \<noteq> [])
               (map (\<lambda>f. or_empty (f_oracle_text f)) (or_nil (c_card_faces c))))"
    using a by (rule props_oracle_text_fallback)
  show "dummy_props_oracle_text c = props_oracle_text c"
    by (rule dummy_props_oracle_text_eq)
  show "props_oracle_text
            (c\<lparr>c_card_faces :=
                 map_option (map (\<lambda>f. f\<lparr>f_type_line := g f\<rparr>)) (c_card_faces c)\<rparr>)
          = props_oracle_text c"
    by (rule props_oracle_ignores_type_lines)
  show "embed_oracle_text c =
            join '' || ''
              (map (\<lambda>f. or_empty (f_type_line f) @ '' :: '' @ or_empty (f_oracle_text f))
                 (filter (\<lambda>f. truthy (f_type_line f) \<or> truthy (f_oracle_text f))
                    (or_nil (c_card_faces c))))"
    using a by (rule embed_oracle_text_fallback)
  assume "filter (\<lambda>f. truthy (f_type_line f) \<or> truthy (f_oracle_text f))
              (or_nil (c_card_faces c)) \<noteq> []"
  with a show "length (props_oracle_text c) < length (embed_oracle_text c)"
    by (rule embed_longer)
qed

theorem props_oracle_text_faces_only_witness:
  "(\<exists>ps. extract_props exact_lib two_faced = Inr ps
         \<and> map_of ps ''oracle_text'' = Some (PStr ''Flying''))
   \<and> props_oracle_text two_faced = ''Flying''
   \<and> dummy_props_oracle_text two_faced = ''Flying''
   \<and> props_oracle_text
       (two_faced\<lparr>c_card_faces :=
          map_option (map (\<lambda>f. f\<lparr>f_type_line := Some ''Artifact''\<rparr>)) (c_card_faces two_faced)\<rparr>)
       = ''Flying''
   \<and> embed_oracle_text two_faced = ''Creature :: Flying || Land :: ''
   \<and> length (props_oracle_text two_faced) < length (embed_oracle_text two_faced)"
  using props_oracle_text_faces_only [of exact_lib two_faced "\<lambda>f. Some ''Artifact''"]
  by (simp add: two_faced_def empty_card_def empty_face_def extract_props_def cmc_value_def
      edhrec_rank_value_def)


section \<open>Batched encoding\<close>

lemma embed_loop_pointwise:
  assumes "\<forall>batch. enc batch = map f batch" and "0 < bs"
  shows "embed_loop lib enc bs texts i vectors
           = vectors @ map (\<lambda>t. l2_normalize lib (f t)) (drop i texts)"
  using assms
proof (induction lib enc bs texts i vectors rule: embed_loop.induct)
  case (1 lib enc bs texts i vectors)
  show ?case
  proof (cases "length texts \<le> i")
    case True
    then show ?thesis by (subst embed_loop.simps) simp
  next
    case False
    have split: "drop i texts = take bs (drop i texts) @ drop (i + bs) texts"
      by (metis append_take_drop_id drop_drop add.commute)
    have "embed_loop lib enc bs texts i vectors =
            embed_loop lib enc bs texts (i + bs)
              (vectors @ map (l2_normalize lib) (enc (take bs (drop i texts))))"
      using False "1.prems" by (subst embed_loop.simps) simp
    also have "\<dots> = (vectors @ map (l2_normalize lib) (enc (take bs (drop i texts))))
                       @ map (\<lambda>t. l2_normalize lib (f t)) (drop (i + bs) texts)"
      using False "1.prems" by (intro "1.IH") simp_all
    also have "\<dots> = vectors @ map (\<lambda>t. l2_normalize lib (f t))
                                 (take bs (drop i texts) @ drop (i + bs) texts)"
      using "1.prems" by simp
    finally show ?thesis using split by simp
  qed
qed

lemma embed_loop_length:
  assumes "\<forall>batch. length (enc batch) = length batch" and "0 < bs"
  shows "length (embed_loop lib enc bs texts i vectors) = length vectors + (length texts - i)"
  using assms
proof (induction lib enc bs texts i vectors rule: embed_loop.induct)
  case (1 lib enc bs texts i vectors)
  show ?case
  proof (cases "length texts \<le> i")
    case True
    then show ?thesis by (subst embed_loop.simps) simp
  next
    case False
    have "embed_loop lib enc bs texts i vectors =
            embed_loop lib enc bs texts (i + bs)
              (vectors @ map (l2_normalize lib) (enc (take bs (drop i texts))))"
      using False "1.prems" by (subst embed_loop.simps) simp
    also have "length \<dots>
                 = length (vectors @ map (l2_normalize lib) (enc (take bs (drop i texts))))
                       + (length texts - (i + bs))"
      using False "1.prems" by (intro "1.IH") simp_all
    finally show ?thesis using "1.prems" False by (simp add: min_def)
  qed
qed

lemma batch_size_of_pos: "0 < batch_size_of knd"
  by (simp add: batch_size_of_def)

lemma concat_singletons: "concat (map (\<lambda>x. [g x]) xs) = map g xs"
  by (induction xs) simp_all

text \<open>
  C6. For an encoder that maps every text of a batch by itself, any positive batch
  size, and whatever the arithmetic of the floats is: the batch encoder returns one
  vector for every text, in the order of the texts, the vector at a position being the
  normalised encoding of the text at that position (equal texts are not merged, none is
  dropped). The output is the same for every positive batch size, the sizes 32 and 64
  of the driver among them, and the same as encoding the texts one at a time.
\<close>

theorem encode_all_pointwise:
  assumes "\<forall>batch. enc batch = map f batch" and "0 < batch_size"
  shows "encode_all lib enc batch_size texts = Inr (map (\<lambda>t. l2_normalize lib (f t)) texts)
     \<and> (\<forall>vectors. encode_all lib enc batch_size texts = Inr vectors \<longrightarrow>
           length vectors = length texts
           \<and> (\<forall>i<length texts. vectors ! i = l2_normalize lib (f (texts ! i))))
     \<and> (\<forall>other. 0 < other \<longrightarrow>
           encode_all lib enc other texts = encode_all lib enc batch_size texts)
     \<and> encode_all lib enc (batch_size_of knd) texts = encode_all lib enc batch_size texts
     \<and> encode_all lib enc 1 texts = encode_all lib enc batch_size texts
     \<and> encode_all lib enc batch_size texts
         = Inr (concat (map (\<lambda>t. map (l2_normalize lib) (enc [t])) texts))"
proof -
  have cl: "\<And>bs. 0 < bs \<Longrightarrow>
      encode_all lib enc bs texts = Inr (map (\<lambda>t. l2_normalize lib (f t)) texts)"
    by (simp add: encode_all_def embed_loop_pointwise [OF assms(1)])
  have one: "concat (map (\<lambda>t. map (l2_normalize lib) (enc [t])) texts)
               = map (\<lambda>t. l2_normalize lib (f t)) texts"
    using assms(1) by (simp add: concat_singletons)
  show ?thesis
    using cl [OF assms(2)] cl [OF batch_size_of_pos] cl [of 1] cl one by simp
qed

theorem encode_all_pointwise_witness:
  "(\<forall>batch. length_encoder batch = map (\<lambda>t. [real (length t), 0]) batch) \<and> (0::nat) < 2
   \<and> encode_all exact_lib length_encoder 2 [''ab'', [], ''abc'', ''ab'']
       = Inr [[1, 0], [0, 0], [1, 0], [1, 0]]
   \<and> encode_all exact_lib length_encoder 1 [''ab'', [], ''abc'', ''ab'']
       = encode_all exact_lib length_encoder 2 [''ab'', [], ''abc'', ''ab'']
   \<and> encode_all exact_lib length_encoder 64 [''ab'', [], ''abc'', ''ab'']
       = encode_all exact_lib length_encoder 2 [''ab'', [], ''abc'', ''ab'']"
proof -
  have h: "\<forall>batch. length_encoder batch = map (\<lambda>t. [real (length t), 0]) batch"
    by (simp add: length_encoder_def)
  have p: "(0::nat) < 2" by simp
  note t = encode_all_pointwise [OF h p, of exact_lib "[''ab'', [], ''abc'', ''ab'']" ST]
  have a: "encode_all exact_lib length_encoder 2 [''ab'', [], ''abc'', ''ab'']
       = Inr [[1, 0], [0, 0], [1, 0], [1, 0]]"
    using conjunct1 [OF t] by (simp add: l2_normalize_def Let_def exact_lib_def)
  have b: "encode_all exact_lib length_encoder 1 [''ab'', [], ''abc'', ''ab'']
       = encode_all exact_lib length_encoder 2 [''ab'', [], ''abc'', ''ab'']"
    using t by blast
  have c: "encode_all exact_lib length_encoder 64 [''ab'', [], ''abc'', ''ab'']
       = encode_all exact_lib length_encoder 2 [''ab'', [], ''abc'', ''ab'']"
    using t by simp
  show ?thesis using h p a b c by blast
qed

section \<open>Normalisation\<close>


















section \<open>The windowing loop\<close>

lemma window_body_skip:
  "w_i w < start \<Longrightarrow> window_body args lib start c w = Inr (w\<lparr>w_i := w_i w + 1\<rparr>, False)"
  by (simp add: window_body_def)

lemma window_body_no_id:
  "start \<le> w_i w \<Longrightarrow> \<not> truthy (c_id c) \<Longrightarrow> window_body args lib start c w = Inr (w, False)"
  by (simp add: window_body_def)

lemma window_body_accept:
  "start \<le> w_i w \<Longrightarrow> truthy (c_id c) \<Longrightarrow> extract_props lib c = Inr ps \<Longrightarrow>
   window_body args lib start c w =
     Inr (w\<lparr>w_texts := w_texts w @ [build_embed_text c (arg_include_name args)],
            w_idx_map := w_idx_map w @ [(or_empty (c_id c), ps)],
            w_processed := w_processed w + 1,
            w_i := w_i w + 1\<rparr>,
          arg_limit args \<noteq> 0 \<and> arg_limit args \<le> w_processed w + 1)"
  by (simp add: window_body_def Let_def)

lemma window_body_raise:
  "start \<le> w_i w \<Longrightarrow> truthy (c_id c) \<Longrightarrow> extract_props lib c = Inl e \<Longrightarrow>
   window_body args lib start c w = Inl e"
  by (simp add: window_body_def Let_def)

text \<open>A loop that returns has passed its first card through the body.\<close>

lemma window_loop_Cons_Inr:
  assumes "window_loop args lib start (c # cs) pos w = Inr (w', pos')"
  shows "\<exists>w1 b. window_body args lib start c w = Inr (w1, b)
           \<and> (if b then w' = w1 \<and> pos' = Suc pos
               else window_loop args lib start cs (Suc pos) w1 = Inr (w', pos'))"
proof (cases "window_body args lib start c w")
  case (Inl e)
  then show ?thesis using assms by simp
next
  case (Inr r)
  obtain w1 b where r: "r = (w1, b)" by (cases r)
  show ?thesis using assms Inr r by (cases b) auto
qed

text \<open>A loop that returns has extracted the properties of every card it has accepted.\<close>

lemma window_loop_extracted:
  assumes "start \<le> w_i w" and "truthy (c_id c)"
    and "window_loop args lib start (c # cs) pos w = Inr (w', pos')"
  shows "\<exists>ps. extract_props lib c = Inr ps"
proof (cases "extract_props lib c")
  case (Inl e)
  then show ?thesis
    using assms(3) by (simp add: window_body_raise [OF assms(1) assms(2)])
next
  case (Inr ps)
  then show ?thesis by blast
qed

lemma window_body_lengths:
  assumes "length (w_texts w) = length (w_idx_map w)"
    and "window_body args lib start c w = Inr (w1, b)"
  shows "length (w_texts w1) = length (w_idx_map w1)"
  using assms by (auto simp: window_body_def Let_def split: if_splits sum.splits)

lemma window_loop_lengths:
  "length (w_texts w) = length (w_idx_map w) \<Longrightarrow>
   window_loop args lib start cs pos w = Inr (w', pos') \<Longrightarrow>
   length (w_texts w') = length (w_idx_map w')"
proof (induction cs arbitrary: pos w)
  case Nil
  then show ?case by simp
next
  case (Cons c cs)
  from window_loop_Cons_Inr [OF Cons.prems(2)] obtain w1 b where
    body: "window_body args lib start c w = Inr (w1, b)"
    and step: "if b then w' = w1 \<and> pos' = Suc pos
               else window_loop args lib start cs (Suc pos) w1 = Inr (w', pos')"
    by blast
  have l: "length (w_texts w1) = length (w_idx_map w1)"
    by (rule window_body_lengths [OF Cons.prems(1) body])
  show ?case
  proof (cases b)
    case True
    then show ?thesis using step l by simp
  next
    case False
    then show ?thesis using step Cons.IH [OF l] by simp
  qed
qed

text \<open>While the counter is below the start offset, cards are passed over and counted.\<close>

lemma window_loop_skip:
  "w_i w + int (length xs) \<le> start \<Longrightarrow>
   window_loop args lib start (xs @ ys) pos w =
     window_loop args lib start ys (pos + length xs) (w\<lparr>w_i := w_i w + int (length xs)\<rparr>)"
proof (induction xs arbitrary: pos w)
  case Nil
  show ?case by simp
next
  case (Cons c xs)
  have lt: "w_i w < start" using Cons.prems by simp
  have "window_loop args lib start ((c # xs) @ ys) pos w =
          window_loop args lib start (xs @ ys) (Suc pos) (w\<lparr>w_i := w_i w + 1\<rparr>)"
    by (simp add: window_body_skip [OF lt])
  also have "\<dots> = window_loop args lib start ys (Suc pos + length xs)
                     ((w\<lparr>w_i := w_i w + 1\<rparr>)\<lparr>w_i := w_i (w\<lparr>w_i := w_i w + 1\<rparr>) + int (length xs)\<rparr>)"
    using Cons.prems by (intro Cons.IH) simp
  finally show ?case by (simp add: add.assoc)
qed

lemma window_loop_pos:
  "window_loop args lib start cs pos w = Inr (w', pos') \<Longrightarrow> pos \<le> pos'"
proof (induction cs arbitrary: pos w)
  case Nil
  then show ?case by simp
next
  case (Cons c cs)
  from window_loop_Cons_Inr [OF Cons.prems] obtain w1 b where
    step: "if b then w' = w1 \<and> pos' = Suc pos
           else window_loop args lib start cs (Suc pos) w1 = Inr (w', pos')"
    by blast
  show ?case
  proof (cases b)
    case True
    then show ?thesis using step by simp
  next
    case False
    then have "Suc pos \<le> pos'" using step Cons.IH [of "Suc pos" w1] by simp
    then show ?thesis by simp
  qed
qed

lemma window_loop_pos_Cons:
  assumes "window_loop args lib start (c # cs) pos w = Inr (w', pos')"
  shows "Suc pos \<le> pos'"
proof -
  from window_loop_Cons_Inr [OF assms] obtain w1 b where
    step: "if b then w' = w1 \<and> pos' = Suc pos
           else window_loop args lib start cs (Suc pos) w1 = Inr (w', pos')"
    by blast
  show ?thesis
  proof (cases b)
    case True
    then show ?thesis using step by simp
  next
    case False
    then show ?thesis using step window_loop_pos [of args lib start cs "Suc pos" w1 w' pos'] by simp
  qed
qed

text \<open>
  Once the counter has reached the start offset: the loop takes \<open>pos' - pos\<close> cards,
  appends those of them that have an identifier, with the properties extracted from
  them, and counts them in \<open>w_processed\<close>. If it stops before the end of the list, or
  with the limit reached by a card of its own, the last card it took has an identifier.
\<close>

lemma window_loop_accept:
  assumes "start \<le> w_i w" and "window_loop args lib start cs pos w = Inr (w', pos')"
  shows "pos \<le> pos' \<and> pos' - pos \<le> length cs
       \<and> w_idx_map w' = w_idx_map w @ map (\<lambda>c. (or_empty (c_id c), projr (extract_props lib c)))
                          (filter (\<lambda>c. truthy (c_id c)) (take (pos' - pos) cs))
       \<and> w_texts w' = w_texts w @ map (\<lambda>c. build_embed_text c (arg_include_name args))
                          (filter (\<lambda>c. truthy (c_id c)) (take (pos' - pos) cs))
       \<and> w_processed w' = w_processed w
            + int (length (filter (\<lambda>c. truthy (c_id c)) (take (pos' - pos) cs)))
       \<and> (pos' - pos < length cs
             \<or> (arg_limit args \<noteq> 0 \<and> arg_limit args \<le> w_processed w'
                 \<and> w_processed w < w_processed w')
           \<longrightarrow> pos < pos' \<and> truthy (c_id (cs ! (pos' - pos - 1))))"
  using assms
proof (induction cs arbitrary: pos w)
  case Nil
  then show ?case by simp
next
  case (Cons c cs)
  show ?case
  proof (cases "truthy (c_id c)")
    case False
    have rec: "window_loop args lib start cs (Suc pos) w = Inr (w', pos')"
      using Cons.prems False by (simp add: window_body_no_id)
    note IH = Cons.IH [OF Cons.prems(1) rec]
    from IH have le: "Suc pos \<le> pos'" by simp
    then have d: "pos' - pos = Suc (pos' - Suc pos)" by simp
    show ?thesis using IH False le unfolding d by (auto simp: nth_Cons')
  next
    case True
    from window_loop_extracted [OF Cons.prems(1) True Cons.prems(2)]
    obtain ps where ex: "extract_props lib c = Inr ps" by blast
    let ?w1 = "w\<lparr>w_texts := w_texts w @ [build_embed_text c (arg_include_name args)],
        w_idx_map := w_idx_map w @ [(or_empty (c_id c), ps)],
        w_processed := w_processed w + 1,
        w_i := w_i w + 1\<rparr>"
    show ?thesis
    proof (cases "arg_limit args \<noteq> 0 \<and> arg_limit args \<le> w_processed w + 1")
      case brk: True
      have "window_loop args lib start (c # cs) pos w = Inr (?w1, Suc pos)"
        using brk by (simp add: window_body_accept [OF Cons.prems(1) True ex])
      then have "w' = ?w1" "pos' = Suc pos" using Cons.prems(2) by simp_all
      then show ?thesis using True ex by simp
    next
      case nobrk: False
      have "window_loop args lib start (c # cs) pos w
              = window_loop args lib start cs (Suc pos) ?w1"
        using nobrk by (auto simp: window_body_accept [OF Cons.prems(1) True ex])
      then have rec: "window_loop args lib start cs (Suc pos) ?w1 = Inr (w', pos')"
        using Cons.prems(2) by simp
      have s1: "start \<le> w_i ?w1" using Cons.prems(1) by simp
      note IH = Cons.IH [OF s1 rec]
      from IH have le: "Suc pos \<le> pos'" by simp
      then have d: "pos' - pos = Suc (pos' - Suc pos)" by simp
      have p: "w_processed w' = w_processed w + 1
            + int (length (filter (\<lambda>c. truthy (c_id c)) (take (pos' - Suc pos) cs)))"
        using IH by simp
      have last_ok: "pos' - pos < length (c # cs)
             \<or> (arg_limit args \<noteq> 0 \<and> arg_limit args \<le> w_processed w'
                 \<and> w_processed w < w_processed w')
           \<longrightarrow> pos < pos' \<and> truthy (c_id ((c # cs) ! (pos' - pos - 1)))"
      proof
        assume a: "pos' - pos < length (c # cs)
             \<or> (arg_limit args \<noteq> 0 \<and> arg_limit args \<le> w_processed w'
                 \<and> w_processed w < w_processed w')"
        have "pos' - Suc pos < length cs
             \<or> (arg_limit args \<noteq> 0 \<and> arg_limit args \<le> w_processed w'
                 \<and> w_processed ?w1 < w_processed w')"
        proof (rule disjE [OF a])
          assume "pos' - pos < length (c # cs)"
          then show ?thesis using d by simp
        next
          assume b: "arg_limit args \<noteq> 0 \<and> arg_limit args \<le> w_processed w'
                 \<and> w_processed w < w_processed w'"
          then have "w_processed w + 1 < w_processed w'"
            using nobrk p by auto
          then show ?thesis using b by simp
        qed
        with IH have "Suc pos < pos' \<and> truthy (c_id (cs ! (pos' - Suc pos - 1)))" by blast
        then show "pos < pos' \<and> truthy (c_id ((c # cs) ! (pos' - pos - 1)))"
          by (auto simp: nth_Cons')
      qed
      show ?thesis using IH True le last_ok ex unfolding d by simp
    qed
  qed
qed

text \<open>The properties of every card the loop has appended were extracted.\<close>

lemma window_loop_accept_extracted:
  assumes "start \<le> w_i w" and "window_loop args lib start cs pos w = Inr (w', pos')"
  shows "\<forall>c \<in> set (filter (\<lambda>c. truthy (c_id c)) (take (pos' - pos) cs)).
           \<exists>ps. extract_props lib c = Inr ps"
  using assms
proof (induction cs arbitrary: pos w)
  case Nil
  then show ?case by simp
next
  case (Cons c cs)
  from window_loop_pos_Cons [OF Cons.prems(2)] have le: "Suc pos \<le> pos'" .
  then have d: "pos' - pos = Suc (pos' - Suc pos)" by simp
  show ?case
  proof (cases "truthy (c_id c)")
    case False
    have rec: "window_loop args lib start cs (Suc pos) w = Inr (w', pos')"
      using Cons.prems False by (simp add: window_body_no_id)
    show ?thesis using Cons.IH [OF Cons.prems(1) rec] False unfolding d by simp
  next
    case True
    from window_loop_extracted [OF Cons.prems(1) True Cons.prems(2)]
    obtain ps where ex: "extract_props lib c = Inr ps" by blast
    let ?w1 = "w\<lparr>w_texts := w_texts w @ [build_embed_text c (arg_include_name args)],
        w_idx_map := w_idx_map w @ [(or_empty (c_id c), ps)],
        w_processed := w_processed w + 1,
        w_i := w_i w + 1\<rparr>"
    show ?thesis
    proof (cases "arg_limit args \<noteq> 0 \<and> arg_limit args \<le> w_processed w + 1")
      case brk: True
      have "window_loop args lib start (c # cs) pos w = Inr (?w1, Suc pos)"
        using brk by (simp add: window_body_accept [OF Cons.prems(1) True ex])
      then have "pos' = Suc pos" using Cons.prems(2) by simp
      then show ?thesis using ex by simp
    next
      case nobrk: False
      have "window_loop args lib start (c # cs) pos w
              = window_loop args lib start cs (Suc pos) ?w1"
        using nobrk by (auto simp: window_body_accept [OF Cons.prems(1) True ex])
      then have rec: "window_loop args lib start cs (Suc pos) ?w1 = Inr (w', pos')"
        using Cons.prems(2) by simp
      have s1: "start \<le> w_i ?w1" using Cons.prems(1) by simp
      show ?thesis using Cons.IH [OF s1 rec] ex unfolding d by simp
    qed
  qed
qed

text \<open>
  Of two loops that return, the one that starts with fewer accepted cards does not stop
  earlier. The two loops may have different start offsets, as long as both have reached
  theirs.
\<close>

lemma window_loop_mono:
  assumes "start1 \<le> w_i w1" and "start2 \<le> w_i w2" and "w_processed w2 \<le> w_processed w1"
    and "window_loop args lib start1 cs pos w1 = Inr (u1, p1)"
    and "window_loop args lib start2 cs pos w2 = Inr (u2, p2)"
  shows "p1 \<le> p2"
  using assms
proof (induction cs arbitrary: pos w1 w2)
  case Nil
  then show ?case by simp
next
  case (Cons c cs)
  show ?case
  proof (cases "truthy (c_id c)")
    case False
    have 1: "window_loop args lib start1 cs (Suc pos) w1 = Inr (u1, p1)"
      using Cons.prems(1,4) False by (simp add: window_body_no_id)
    have 2: "window_loop args lib start2 cs (Suc pos) w2 = Inr (u2, p2)"
      using Cons.prems(2,5) False by (simp add: window_body_no_id)
    show ?thesis by (rule Cons.IH [OF Cons.prems(1) Cons.prems(2) Cons.prems(3) 1 2])
  next
    case True
    from window_loop_extracted [OF Cons.prems(1) True Cons.prems(4)]
    obtain ps where ex: "extract_props lib c = Inr ps" by blast
    let ?u1 = "w1\<lparr>w_texts := w_texts w1 @ [build_embed_text c (arg_include_name args)],
        w_idx_map := w_idx_map w1 @ [(or_empty (c_id c), ps)],
        w_processed := w_processed w1 + 1,
        w_i := w_i w1 + 1\<rparr>"
    let ?u2 = "w2\<lparr>w_texts := w_texts w2 @ [build_embed_text c (arg_include_name args)],
        w_idx_map := w_idx_map w2 @ [(or_empty (c_id c), ps)],
        w_processed := w_processed w2 + 1,
        w_i := w_i w2 + 1\<rparr>"
    show ?thesis
    proof (cases "arg_limit args \<noteq> 0 \<and> arg_limit args \<le> w_processed w1 + 1")
      case brk: True
      have "window_loop args lib start1 (c # cs) pos w1 = Inr (?u1, Suc pos)"
        using brk by (simp add: window_body_accept [OF Cons.prems(1) True ex])
      then have "p1 = Suc pos" using Cons.prems(4) by simp
      then show ?thesis using window_loop_pos_Cons [OF Cons.prems(5)] by simp
    next
      case nobrk: False
      then have nobrk2: "\<not> (arg_limit args \<noteq> 0 \<and> arg_limit args \<le> w_processed w2 + 1)"
        using Cons.prems(3) by auto
      have "window_loop args lib start1 (c # cs) pos w1
              = window_loop args lib start1 cs (Suc pos) ?u1"
        using nobrk by (auto simp: window_body_accept [OF Cons.prems(1) True ex])
      then have 1: "window_loop args lib start1 cs (Suc pos) ?u1 = Inr (u1, p1)"
        using Cons.prems(4) by simp
      have "window_loop args lib start2 (c # cs) pos w2
              = window_loop args lib start2 cs (Suc pos) ?u2"
        using nobrk2 by (auto simp: window_body_accept [OF Cons.prems(2) True ex])
      then have 2: "window_loop args lib start2 cs (Suc pos) ?u2 = Inr (u2, p2)"
        using Cons.prems(5) by simp
      have a: "start1 \<le> w_i ?u1" using Cons.prems(1) by simp
      have b: "start2 \<le> w_i ?u2" using Cons.prems(2) by simp
      have c: "w_processed ?u2 \<le> w_processed ?u1" using Cons.prems(3) by simp
      show ?thesis by (rule Cons.IH [OF a b c 1 2])
    qed
  qed
qed

text \<open>A loop that takes more than \<open>j\<close> cards is, after \<open>j\<close> cards, still running.\<close>

lemma window_loop_split:
  assumes "start \<le> w_i w" and "window_loop args lib start cs pos w = Inr (w', pos')"
    and "pos + j < pos'"
  shows "\<exists>wm. start \<le> w_i wm \<and> w_processed w \<le> w_processed wm
              \<and> window_loop args lib start (drop j cs) (pos + j) wm = Inr (w', pos')"
  using assms
proof (induction j arbitrary: cs pos w)
  case 0
  then show ?case by auto
next
  case (Suc j)
  show ?case
  proof (cases cs)
    case Nil
    then show ?thesis using Suc.prems by simp
  next
    case (Cons c cs')
    from window_loop_Cons_Inr [OF Suc.prems(2) [unfolded Cons]] obtain w1 b where
      body: "window_body args lib start c w = Inr (w1, b)"
      and step: "if b then w' = w1 \<and> pos' = Suc pos
                 else window_loop args lib start cs' (Suc pos) w1 = Inr (w', pos')"
      by blast
    have nb: "\<not> b" using Suc.prems(3) step by (cases b) simp_all
    have w1: "start \<le> w_i w1 \<and> w_processed w \<le> w_processed w1"
      using body Suc.prems(1)
      by (auto simp: window_body_def Let_def split: if_splits sum.splits)
    have rec: "window_loop args lib start cs' (Suc pos) w1 = Inr (w', pos')"
      using step nb by simp
    have "Suc pos + j < pos'" using Suc.prems(3) by simp
    from Suc.IH [OF _ rec this] w1 obtain wm where
      "start \<le> w_i wm" "w_processed w1 \<le> w_processed wm"
      "window_loop args lib start (drop j cs') (Suc pos + j) wm = Inr (w', pos')"
      by blast
    then show ?thesis using w1 Cons by (intro exI [of _ wm]) simp
  qed
qed

text \<open>
  The whole loop, from the initial variables: it passes over the first
  \<open>min start (length cards)\<close> cards and then runs as \<open>window_loop_accept\<close> says.
\<close>

lemma window_from_init:
  assumes "window_loop args lib start cards 0 (window_init :: 'f window) = Inr (w, pos)"
  defines "k \<equiv> min (nat start) (length cards)"
  shows "k \<le> pos \<and> pos \<le> length cards
       \<and> w_idx_map w = map (\<lambda>c. (or_empty (c_id c), projr (extract_props lib c)))
                          (filter (\<lambda>c. truthy (c_id c)) (take (pos - k) (drop k cards)))
       \<and> w_texts w = map (\<lambda>c. build_embed_text c (arg_include_name args))
                          (filter (\<lambda>c. truthy (c_id c)) (take (pos - k) (drop k cards)))
       \<and> (arg_limit args \<noteq> 0 \<and> arg_limit args \<le> int (length (w_idx_map w)) \<and> w_idx_map w \<noteq> []
           \<longrightarrow> k < pos \<and> truthy (c_id (cards ! (pos - 1))))
       \<and> (nat start \<le> length cards \<longrightarrow>
            (\<exists>w0. start \<le> w_i w0 \<and> w_processed w0 = 0
                  \<and> window_loop args lib start (drop k cards) k w0 = Inr (w, pos)))
       \<and> (\<forall>c \<in> set (filter (\<lambda>c. truthy (c_id c)) (take (pos - k) (drop k cards))).
             \<exists>ps. extract_props lib c = Inr ps)"
proof (cases "int (length cards) < start")
  case True
  then have k: "k = length cards" by (simp add: k_def)
  have "window_loop args lib start (cards @ []) 0 window_init =
          window_loop args lib start [] (0 + length cards)
            (window_init\<lparr>w_i := w_i (window_init :: 'f window) + int (length cards)\<rparr>)"
    using True by (intro window_loop_skip) (simp add: window_init_def)
  then have "w = window_init\<lparr>w_i := w_i (window_init :: 'f window) + int (length cards)\<rparr>" "pos = length cards"
    using assms(1) by simp_all
  moreover have "\<not> nat start \<le> length cards" using True by linarith
  ultimately show ?thesis using k by (simp add: window_init_def)
next
  case False
  then have kle: "nat start \<le> length cards" by simp
  then have k: "k = nat start" by (simp add: k_def)
  define w0 :: "'f window"
    where "w0 = window_init\<lparr>w_i := w_i (window_init :: 'f window) + int (length (take k cards))\<rparr>"
  have len: "length (take k cards) = k" using kle k by simp
  have reached: "start \<le> w_i w0" using k len by (simp add: w0_def window_init_def)
  have p0: "w_processed w0 = 0" by (simp add: w0_def window_init_def)
  have e0: "w_idx_map w0 = []" "w_texts w0 = []" by (simp_all add: w0_def window_init_def)
  have skip: "window_loop args lib start (take k cards @ drop k cards) 0 window_init =
          window_loop args lib start (drop k cards) (0 + length (take k cards)) w0"
    unfolding w0_def
  proof (cases "k = 0")
    case True
    then show "window_loop args lib start (take k cards @ drop k cards) 0 window_init =
      window_loop args lib start (drop k cards) (0 + length (take k cards))
        (window_init\<lparr>w_i := w_i (window_init :: 'f window) + int (length (take k cards))\<rparr>)"
      by (simp add: window_init_def)
  next
    case False
    then have "int k \<le> start" using k by simp
    then show "window_loop args lib start (take k cards @ drop k cards) 0 window_init =
      window_loop args lib start (drop k cards) (0 + length (take k cards))
        (window_init\<lparr>w_i := w_i (window_init :: 'f window) + int (length (take k cards))\<rparr>)"
      using len by (intro window_loop_skip) (simp add: window_init_def)
  qed
  then have run: "window_loop args lib start (drop k cards) k w0 = Inr (w, pos)"
    using assms(1) len by simp
  note acc = window_loop_accept [OF reached run]
  have idx: "w_idx_map w = map (\<lambda>c. (or_empty (c_id c), projr (extract_props lib c)))
                          (filter (\<lambda>c. truthy (c_id c)) (take (pos - k) (drop k cards)))"
    using acc e0 by simp
  have proc: "w_processed w = int (length (w_idx_map w))"
    using acc p0 idx by simp
  have lastc: "arg_limit args \<noteq> 0 \<and> arg_limit args \<le> int (length (w_idx_map w)) \<and> w_idx_map w \<noteq> []
           \<longrightarrow> k < pos \<and> truthy (c_id (cards ! (pos - 1)))"
  proof
    assume a: "arg_limit args \<noteq> 0 \<and> arg_limit args \<le> int (length (w_idx_map w)) \<and> w_idx_map w \<noteq> []"
    then have "arg_limit args \<noteq> 0 \<and> arg_limit args \<le> w_processed w \<and> w_processed w0 < w_processed w"
      using proc p0 by simp
    with acc have b: "k < pos \<and> truthy (c_id (drop k cards ! (pos - k - 1)))" by blast
    moreover have "pos - k \<le> length (drop k cards)" using acc by simp
    ultimately have "drop k cards ! (pos - k - 1) = cards ! (pos - 1)"
      using kle k by (simp add: nth_drop)
    with b show "k < pos \<and> truthy (c_id (cards ! (pos - 1)))" by simp
  qed
  have bounds: "k \<le> pos \<and> pos \<le> length cards"
  proof -
    have "k \<le> pos" "pos - k \<le> length (drop k cards)" using acc by simp_all
    then show ?thesis using kle k by simp
  qed
  have texts_eq: "w_texts w = map (\<lambda>c. build_embed_text c (arg_include_name args))
                          (filter (\<lambda>c. truthy (c_id c)) (take (pos - k) (drop k cards)))"
    using acc e0 by simp
  have ex: "nat start \<le> length cards \<longrightarrow>
            (\<exists>w0. start \<le> w_i w0 \<and> w_processed w0 = 0
                  \<and> window_loop args lib start (drop k cards) k w0 = Inr (w, pos))"
    using reached p0 run by blast
  have extracted: "\<forall>c \<in> set (filter (\<lambda>c. truthy (c_id c)) (take (pos - k) (drop k cards))).
             \<exists>ps. extract_props lib c = Inr ps"
    by (rule window_loop_accept_extracted [OF reached run])
  show ?thesis
    using bounds idx texts_eq lastc ex extracted by blast
qed

text \<open>
  When every card has an identifier, the committed offset is the position the loop has
  reached: the next run starts where this one stopped.
\<close>

lemma window_all_ids:
  assumes "window_loop args lib start cards 0 window_init = Inr (w, pos)"
    and "\<forall>c\<in>set cards. truthy (c_id c)" and "0 \<le> start" and "nat start \<le> length cards"
  shows "start + int (length (w_idx_map w)) = int pos"
    and "map fst (w_idx_map w)
           = map (\<lambda>c. or_empty (c_id c)) (take (pos - nat start) (drop (nat start) cards))"
proof -
  have k: "min (nat start) (length cards) = nat start" using assms(4) by simp
  note f = window_from_init [OF assms(1), unfolded k]
  have all: "filter (\<lambda>c. truthy (c_id c)) (take (pos - nat start) (drop (nat start) cards))
               = take (pos - nat start) (drop (nat start) cards)"
    using assms(2) by (auto simp: filter_id_conv dest: in_set_takeD in_set_dropD)
  show "start + int (length (w_idx_map w)) = int pos"
    using f assms(3) unfolding all by auto
  show "map fst (w_idx_map w)
           = map (\<lambda>c. or_empty (c_id c)) (take (pos - nat start) (drop (nat start) cards))"
    using f unfolding all by (simp add: comp_def)
qed

text \<open>
  Every entry the loop has appended comes from a card of the list that has an
  identifier, and holds the dictionary that \<^verbatim>\<open>extract_props\<close> has returned for it.
\<close>

lemma window_loop_entries:
  assumes "window_loop args lib start cs pos w = Inr (w', pos')"
  shows "\<exists>new. w_idx_map w' = w_idx_map w @ new
           \<and> (\<forall>(cid, ps) \<in> set new.
                 \<exists>c \<in> set cs. truthy (c_id c) \<and> cid = or_empty (c_id c)
                   \<and> extract_props lib c = Inr ps)"
  using assms
proof (induction cs arbitrary: pos w)
  case Nil
  then show ?case by simp
next
  case (Cons c cs)
  from window_loop_Cons_Inr [OF Cons.prems] obtain w1 b where
    body: "window_body args lib start c w = Inr (w1, b)"
    and step: "if b then w' = w1 \<and> pos' = Suc pos
               else window_loop args lib start cs (Suc pos) w1 = Inr (w', pos')"
    by blast
  have one: "\<exists>new. w_idx_map w1 = w_idx_map w @ new
           \<and> (\<forall>(cid, ps) \<in> set new.
                 truthy (c_id c) \<and> cid = or_empty (c_id c) \<and> extract_props lib c = Inr ps)"
    using body by (auto simp: window_body_def Let_def split: if_splits sum.splits)
  then obtain n1 where n1: "w_idx_map w1 = w_idx_map w @ n1"
    "\<forall>(cid, ps) \<in> set n1.
        truthy (c_id c) \<and> cid = or_empty (c_id c) \<and> extract_props lib c = Inr ps"
    by blast
  show ?case
  proof (cases b)
    case True
    then have "w' = w1" using step by simp
    then show ?thesis using n1 by (intro exI [of _ n1]) auto
  next
    case False
    then have "window_loop args lib start cs (Suc pos) w1 = Inr (w', pos')" using step by simp
    from Cons.IH [OF this] obtain n2 where n2: "w_idx_map w' = w_idx_map w1 @ n2"
      "\<forall>(cid, ps) \<in> set n2.
          \<exists>c \<in> set cs. truthy (c_id c) \<and> cid = or_empty (c_id c) \<and> extract_props lib c = Inr ps"
      by blast
    show ?thesis using n1 n2 by (intro exI [of _ "n1 @ n2"]) auto
  qed
qed

text \<open>The loop returns when the properties of every card with an identifier can be extracted.\<close>

lemma window_loop_returns:
  assumes "\<forall>c\<in>set cs. truthy (c_id c) \<longrightarrow> (\<exists>ps. extract_props lib c = Inr ps)"
  shows "\<exists>w' pos'. window_loop args lib start cs pos w = Inr (w', pos')"
  using assms
proof (induction cs arbitrary: pos w)
  case Nil
  show ?case by simp
next
  case (Cons c cs)
  have "\<exists>w1 b. window_body args lib start c w = Inr (w1, b)"
    using Cons.prems by (auto simp: window_body_def Let_def)
  then obtain w1 b where body: "window_body args lib start c w = Inr (w1, b)" by blast
  show ?case
  proof (cases b)
    case True
    then show ?thesis using body by simp
  next
    case False
    have "\<exists>w' pos'. window_loop args lib start cs (Suc pos) w1 = Inr (w', pos')"
      using Cons.prems by (intro Cons.IH) simp
    then show ?thesis using body False by simp
  qed
qed

section \<open>The objects of a run\<close>

lemma compute_objects_ok:
  assumes "\<forall>batch. length (enc batch) = length batch"
    and "window_loop args lib start cards 0 window_init = Inr (w, pos)"
  shows "compute_objects args knd enc lib cards start =
           Inr (assemble (w_idx_map w)
                  (embed_loop lib enc (batch_size_of knd) (w_texts w) 0 []))"
proof -
  have "length (w_texts w) = length (w_idx_map w)"
    by (rule window_loop_lengths [OF _ assms(2)]) (simp add: window_init_def)
  then have "length (embed_loop lib enc (batch_size_of knd) (w_texts w) 0 [])
               = length (w_idx_map w)"
    using embed_loop_length [OF assms(1) batch_size_of_pos, of lib knd "w_texts w" 0 "[]"]
    by simp
  then show ?thesis
    using batch_size_of_pos [of knd] assms(2)
    by (simp add: compute_objects_def encode_all_def)
qed

lemma compute_objects_Inr:
  assumes "compute_objects args knd enc lib cards start = Inr objects"
  shows "\<exists>w pos vectors. window_loop args lib start cards 0 window_init = Inr (w, pos)
           \<and> encode_all lib enc (batch_size_of knd) (w_texts w) = Inr vectors
           \<and> length vectors = length (w_idx_map w)
           \<and> objects = assemble (w_idx_map w) vectors"
  using assms
  by (auto simp: compute_objects_def split: sum.splits if_splits)

lemma compute_objects_entries:
  assumes "compute_objects args knd enc lib cards start = Inr objects" and "obj \<in> set objects"
  shows "\<exists>c \<in> set cards. \<exists>ps. truthy (c_id c) \<and> o_id obj = or_empty (c_id c)
           \<and> extract_props lib c = Inr ps \<and> o_properties obj = clean_props ps"
proof -
  from compute_objects_Inr [OF assms(1)] obtain w pos vectors where
    run: "window_loop args lib start cards 0 window_init = Inr (w, pos)"
    and objs: "objects = assemble (w_idx_map w) vectors"
    by blast
  from window_loop_entries [OF run] have idx:
    "\<forall>(cid, ps) \<in> set (w_idx_map w).
        \<exists>c \<in> set cards. truthy (c_id c) \<and> cid = or_empty (c_id c) \<and> extract_props lib c = Inr ps"
    by (simp add: window_init_def)
  from assms(2) objs obtain cid ps vec where
    m: "((cid, ps), vec) \<in> set (zip (w_idx_map w) vectors)"
    and o: "obj = make_object ((cid, ps), vec)"
    by (auto simp: assemble_def)
  from m have "(cid, ps) \<in> set (w_idx_map w)" by (rule set_zip_leftD)
  with idx obtain c where "c \<in> set cards" "truthy (c_id c)" "cid = or_empty (c_id c)"
    "extract_props lib c = Inr ps"
    by blast
  then show ?thesis using o by (auto simp: make_object_def)
qed

section \<open>The properties of an output object\<close>

lemma extract_props_keys:
  "extract_props lib c = Inr ps \<Longrightarrow>
   map fst ps =
     [''scryfall_id'', ''name'', ''mana_cost'', ''cmc'', ''type_line'', ''oracle_text'', ''power'',
      ''toughness'', ''colors'', ''color_identity'', ''keywords'', ''edhrec_rank'', ''set'',
      ''collector_number'', ''rarity'', ''layout'', ''image_small'', ''image_normal'',
      ''legalities'']"
  by (auto simp: extract_props_Inr)

lemma distinct_extract_props: "extract_props lib c = Inr ps \<Longrightarrow> distinct (map fst ps)"
  by (simp add: extract_props_keys)

lemma map_of_clean_props:
  "distinct (map fst ps) \<Longrightarrow>
   map_of (clean_props ps) k =
     (case map_of ps k of None \<Rightarrow> None | Some v \<Rightarrow> if v = PNone then None else Some v)"
proof (induction ps)
  case Nil
  show ?case by (simp add: clean_props_def)
next
  case (Cons p ps)
  obtain k' v' where p: "p = (k', v')" by (cases p)
  have IH: "map_of (clean_props ps) k =
     (case map_of ps k of None \<Rightarrow> None | Some v \<Rightarrow> if v = PNone then None else Some v)"
    using Cons by simp
  have notin: "map_of ps k' = None"
    using Cons.prems p by (simp add: map_of_eq_None_iff)
  show ?case
  proof (cases "k = k'")
    case True
    then show ?thesis
      using IH notin p by (simp add: clean_props_def)
  next
    case False
    then show ?thesis
      using IH p by (simp add: clean_props_def)
  qed
qed

lemma cmc_value_Inr:
  "(cmc_value lib c = Inr v) =
     (case c_cmc c of None \<Rightarrow> v = PNone
      | Some x \<Rightarrow> \<exists>y. py_float lib x = Inr y \<and> v = PFloat y)"
  by (auto simp: cmc_value_def split: option.splits sum.splits)

lemma edhrec_rank_value_Inr:
  "(edhrec_rank_value lib c = Inr v) =
     (case c_edhrec_rank c of None \<Rightarrow> v = PNone
      | Some x \<Rightarrow> \<exists>n. py_int lib x = Inr n \<and> v = PInt n)"
  by (auto simp: edhrec_rank_value_def split: option.splits sum.splits)

lemma extract_props_Inl:
  "(extract_props lib c = Inl e) =
     ((\<exists>x. c_cmc c = Some x \<and> py_float lib x = Inl e)
      \<or> ((\<forall>x e'. c_cmc c = Some x \<longrightarrow> py_float lib x \<noteq> Inl e')
          \<and> (\<exists>x. c_edhrec_rank c = Some x \<and> py_int lib x = Inl e)))"
  by (auto simp: extract_props_def cmc_value_def edhrec_rank_value_def
      split: option.splits sum.splits)

lemma assemble_maps:
  assumes "length vectors = length idx_map"
  shows "map o_id (assemble idx_map vectors) = map fst idx_map"
    and "map o_properties (assemble idx_map vectors) = map (\<lambda>(cid, ps). clean_props ps) idx_map"
    and "map o_vector (assemble idx_map vectors) = vectors"
    and "map o_class (assemble idx_map vectors) = map (\<lambda>e. ''Card'') idx_map"
  using assms
proof (induction idx_map arbitrary: vectors)
  case Nil
  {
    case 1 then show ?case by (simp add: assemble_def)
  next
    case 2 then show ?case by (simp add: assemble_def)
  next
    case 3 then show ?case by (simp add: assemble_def)
  next
    case 4 then show ?case by (simp add: assemble_def)
  }
next
  case (Cons p idx_map)
  {
    case 1
    then obtain v vs where v: "vectors = v # vs" "length vs = length idx_map"
      by (cases vectors) simp_all
    then show ?case using Cons.IH(1) [of vs] by (cases p) (simp add: assemble_def make_object_def split_beta)
  next
    case 2
    then obtain v vs where v: "vectors = v # vs" "length vs = length idx_map"
      by (cases vectors) simp_all
    then show ?case using Cons.IH(2) [of vs] by (cases p) (simp add: assemble_def make_object_def split_beta)
  next
    case 3
    then obtain v vs where v: "vectors = v # vs" "length vs = length idx_map"
      by (cases vectors) simp_all
    then show ?case using Cons.IH(3) [of vs] by (cases p) (simp add: assemble_def make_object_def split_beta)
  next
    case 4
    then obtain v vs where v: "vectors = v # vs" "length vs = length idx_map"
      by (cases vectors) simp_all
    then show ?case using Cons.IH(4) [of vs] by (cases p) (simp add: assemble_def make_object_def split_beta)
  }
qed

text \<open>
  C9. A card of which \<^verbatim>\<open>extract_props\<close> returns a dictionary: no key of its cleaned
  properties holds \<^verbatim>\<open>None\<close>. The key \<^verbatim>\<open>cmc\<close> holds the float that \<^verbatim>\<open>float\<close> makes of
  the card's number, and \<^verbatim>\<open>edhrec_rank\<close> the integer that \<^verbatim>\<open>int\<close> makes of it, when the
  card has the field; they are not keys of the output when it has not. \<^verbatim>\<open>name\<close> and
  \<^verbatim>\<open>scryfall_id\<close> are removed in the same way when absent, and every other entry is kept
  as extracted. A card on whose number \<^verbatim>\<open>float\<close> or \<^verbatim>\<open>int\<close> raises has no dictionary:
  \<^verbatim>\<open>extract_props\<close> raises that exception. The driver builds one object for every
  entry of its index, in order, with the identifier, the cleaned properties and the
  vector; so every object of a run that computes its objects belongs to a card of the
  collection with that identifier, holds the cleaned properties of that card, and has
  no key that holds \<^verbatim>\<open>None\<close>.
\<close>

theorem clean_props_no_null:
  "(\<forall>ps. extract_props lib c = Inr ps \<longrightarrow>
       (\<forall>(k, v) \<in> set (clean_props ps). v \<noteq> PNone)
     \<and> (case c_cmc c of
          None \<Rightarrow> map_of (clean_props ps) ''cmc'' = None
        | Some x \<Rightarrow> \<exists>y. py_float lib x = Inr y
                      \<and> map_of (clean_props ps) ''cmc'' = Some (PFloat y))
     \<and> (case c_edhrec_rank c of
          None \<Rightarrow> map_of (clean_props ps) ''edhrec_rank'' = None
        | Some x \<Rightarrow> \<exists>n. py_int lib x = Inr n
                      \<and> map_of (clean_props ps) ''edhrec_rank'' = Some (PInt n))
     \<and> map_of (clean_props ps) ''name'' = map_option PStr (c_name c)
     \<and> map_of (clean_props ps) ''scryfall_id'' = map_option PStr (c_id c)
     \<and> (\<forall>k v. v \<noteq> PNone \<longrightarrow>
           (map_of (clean_props ps) k = Some v) = (map_of ps k = Some v))
     \<and> o_properties (make_object ((cid, ps), vec)) = clean_props ps)
   \<and> (\<forall>e. (extract_props lib c = Inl e) =
           ((\<exists>x. c_cmc c = Some x \<and> py_float lib x = Inl e)
            \<or> ((\<forall>x e'. c_cmc c = Some x \<longrightarrow> py_float lib x \<noteq> Inl e')
                \<and> (\<exists>x. c_edhrec_rank c = Some x \<and> py_int lib x = Inl e))))
   \<and> (length vectors = length idx_map \<longrightarrow>
        map o_id (assemble idx_map vectors) = map fst idx_map
        \<and> map o_properties (assemble idx_map vectors)
            = map (\<lambda>(cid, ps). clean_props ps) idx_map
        \<and> map o_vector (assemble idx_map vectors) = vectors)
   \<and> (\<forall>obj \<in> set (assemble idx_map vectors). \<forall>(k, v) \<in> set (o_properties obj). v \<noteq> PNone)
   \<and> (\<forall>objects. compute_objects args knd enc lib cards start = Inr objects \<longrightarrow>
         (\<forall>obj \<in> set objects.
            (\<forall>(k, v) \<in> set (o_properties obj). v \<noteq> PNone)
            \<and> (\<exists>c \<in> set cards. \<exists>ps. truthy (c_id c) \<and> o_id obj = or_empty (c_id c)
                  \<and> extract_props lib c = Inr ps \<and> o_properties obj = clean_props ps)))"
proof (intro conjI allI impI)
  fix ps
  assume ex: "extract_props lib c = Inr ps"
  show "\<forall>(k, v) \<in> set (clean_props ps). v \<noteq> PNone"
    by (auto simp: clean_props_def)
  note m = map_of_clean_props [OF distinct_extract_props [OF ex]]
  from ex obtain cmc rank where
    cmc: "cmc_value lib c = Inr cmc" and rank: "edhrec_rank_value lib c = Inr rank"
    and mc: "map_of ps ''cmc'' = Some cmc" and mr: "map_of ps ''edhrec_rank'' = Some rank"
    and mn: "map_of ps ''name'' = Some (get_str (c_name c))"
    and mi: "map_of ps ''scryfall_id'' = Some (get_str (c_id c))"
    by (auto simp: extract_props_Inr)
  show "case c_cmc c of
          None \<Rightarrow> map_of (clean_props ps) ''cmc'' = None
        | Some x \<Rightarrow> \<exists>y. py_float lib x = Inr y
                      \<and> map_of (clean_props ps) ''cmc'' = Some (PFloat y)"
    using cmc unfolding m mc by (auto simp: cmc_value_Inr split: option.splits)
  show "case c_edhrec_rank c of
          None \<Rightarrow> map_of (clean_props ps) ''edhrec_rank'' = None
        | Some x \<Rightarrow> \<exists>n. py_int lib x = Inr n
                      \<and> map_of (clean_props ps) ''edhrec_rank'' = Some (PInt n)"
    using rank unfolding m mr by (auto simp: edhrec_rank_value_Inr split: option.splits)
  show "map_of (clean_props ps) ''name'' = map_option PStr (c_name c)"
    unfolding m mn by (cases "c_name c") simp_all
  show "map_of (clean_props ps) ''scryfall_id'' = map_option PStr (c_id c)"
    unfolding m mi by (cases "c_id c") simp_all
  show "o_properties (make_object ((cid, ps), vec)) = clean_props ps"
    by (simp add: make_object_def)
  fix k and v :: "'a pvalue"
  assume "v \<noteq> PNone"
  then show "(map_of (clean_props ps) k = Some v) = (map_of ps k = Some v)"
    unfolding m by (auto split: option.splits)
next
  fix e
  show "(extract_props lib c = Inl e) =
           ((\<exists>x. c_cmc c = Some x \<and> py_float lib x = Inl e)
            \<or> ((\<forall>x e'. c_cmc c = Some x \<longrightarrow> py_float lib x \<noteq> Inl e')
                \<and> (\<exists>x. c_edhrec_rank c = Some x \<and> py_int lib x = Inl e)))"
    by (rule extract_props_Inl)
next
  assume l: "length vectors = length idx_map"
  show "map o_id (assemble idx_map vectors) = map fst idx_map"
    by (rule assemble_maps(1) [OF l])
  show "map o_properties (assemble idx_map vectors) = map (\<lambda>(cid, ps). clean_props ps) idx_map"
    by (rule assemble_maps(2) [OF l])
  show "map o_vector (assemble idx_map vectors) = vectors"
    by (rule assemble_maps(3) [OF l])
next
  show "\<forall>obj \<in> set (assemble idx_map vectors). \<forall>(k, v) \<in> set (o_properties obj). v \<noteq> PNone"
    by (auto simp: assemble_def make_object_def clean_props_def)
next
  fix objects
  assume c: "compute_objects args knd enc lib cards start = Inr objects"
  show "\<forall>obj \<in> set objects.
            (\<forall>(k, v) \<in> set (o_properties obj). v \<noteq> PNone)
            \<and> (\<exists>c \<in> set cards. \<exists>ps. truthy (c_id c) \<and> o_id obj = or_empty (c_id c)
                  \<and> extract_props lib c = Inr ps \<and> o_properties obj = clean_props ps)"
  proof
    fix obj
    assume o: "obj \<in> set objects"
    from compute_objects_entries [OF c o]
    have e: "\<exists>c \<in> set cards. \<exists>ps. truthy (c_id c) \<and> o_id obj = or_empty (c_id c)
                  \<and> extract_props lib c = Inr ps \<and> o_properties obj = clean_props ps" .
    then have "\<forall>(k, v) \<in> set (o_properties obj). v \<noteq> PNone"
      by (auto simp: clean_props_def)
    with e show "(\<forall>(k, v) \<in> set (o_properties obj). v \<noteq> PNone)
            \<and> (\<exists>c \<in> set cards. \<exists>ps. truthy (c_id c) \<and> o_id obj = or_empty (c_id c)
                  \<and> extract_props lib c = Inr ps \<and> o_properties obj = clean_props ps)"
      by blast
  qed
qed

theorem clean_props_no_null_witness:
  "(\<exists>ps. extract_props exact_lib bolt = Inr ps
      \<and> map fst (clean_props ps) =
          [''scryfall_id'', ''name'', ''mana_cost'', ''cmc'', ''type_line'', ''oracle_text'',
           ''power'', ''toughness'', ''colors'', ''color_identity'', ''keywords'', ''set'',
           ''collector_number'', ''rarity'', ''layout'', ''image_small'', ''image_normal'',
           ''legalities'']
      \<and> map_of (clean_props ps) ''cmc'' = Some (PFloat 1)
      \<and> map_of (clean_props ps) ''edhrec_rank'' = None
      \<and> map_of (clean_props ps) ''name'' = Some (PStr ''Bolt'')
      \<and> PNone \<notin> snd ` set (clean_props ps))
   \<and> (\<exists>ps. extract_props exact_lib
              (bolt\<lparr>c_name := None, c_cmc := Some (JInt 3),
                    c_edhrec_rank := Some (JFloat (5 / 2))\<rparr>) = Inr ps
      \<and> map_of (clean_props ps) ''cmc'' = Some (PFloat 3)
      \<and> map_of (clean_props ps) ''edhrec_rank'' = Some (PInt 2)
      \<and> map_of (clean_props ps) ''name'' = None
      \<and> PNone \<notin> snd ` set (clean_props ps))
   \<and> extract_props bounded_lib (bolt\<lparr>c_cmc := Some (JInt (2 ^ 1024))\<rparr>) = Inl OverflowError
   \<and> (\<exists>obj. compute_objects args0 ST unit_encoder exact_lib [empty_card, bolt] 0 = Inr [obj]
        \<and> o_id obj = ''a''
        \<and> map fst (o_properties obj) =
            [''scryfall_id'', ''name'', ''mana_cost'', ''cmc'', ''type_line'', ''oracle_text'',
             ''power'', ''toughness'', ''colors'', ''color_identity'', ''keywords'', ''set'',
             ''collector_number'', ''rarity'', ''layout'', ''image_small'', ''image_normal'',
             ''legalities'']
        \<and> map_of (o_properties obj) ''cmc'' = Some (PFloat 1)
        \<and> PNone \<notin> snd ` set (o_properties obj)
        \<and> o_vector obj = [1])"
proof -
  let ?b2 = "bolt\<lparr>c_name := None, c_cmc := Some (JInt 3), c_edhrec_rank := Some (JFloat (5 / 2))\<rparr>"
  note t1 = clean_props_no_null [of exact_lib bolt "''a''" "[1]" "[]" "[]" args0 ST
      unit_encoder "[empty_card, bolt]" 0]
  note t2 = clean_props_no_null [of exact_lib ?b2 "''a''" "[1]" "[]" "[]" args0 ST
      unit_encoder "[empty_card, bolt]" 0]
  note t3 = clean_props_no_null [of bounded_lib "bolt\<lparr>c_cmc := Some (JInt (2 ^ 1024))\<rparr>"
      "''a''" "[1]" "[]" "[]" args0 ST unit_encoder "[empty_card, bolt]" 0]
  obtain ps1 where p1: "extract_props exact_lib bolt = Inr ps1"
    by (simp add: extract_props_def cmc_value_def edhrec_rank_value_def bolt_def empty_card_def
        exact_lib_def)
  have k1: "map fst (clean_props ps1) =
          [''scryfall_id'', ''name'', ''mana_cost'', ''cmc'', ''type_line'', ''oracle_text'',
           ''power'', ''toughness'', ''colors'', ''color_identity'', ''keywords'', ''set'',
           ''collector_number'', ''rarity'', ''layout'', ''image_small'', ''image_normal'',
           ''legalities'']"
    using p1
    by (auto simp: extract_props_def cmc_value_def edhrec_rank_value_def bolt_def empty_card_def
        exact_lib_def clean_props_def)
  have a: "\<exists>ps. extract_props exact_lib bolt = Inr ps
      \<and> map fst (clean_props ps) =
          [''scryfall_id'', ''name'', ''mana_cost'', ''cmc'', ''type_line'', ''oracle_text'',
           ''power'', ''toughness'', ''colors'', ''color_identity'', ''keywords'', ''set'',
           ''collector_number'', ''rarity'', ''layout'', ''image_small'', ''image_normal'',
           ''legalities'']
      \<and> map_of (clean_props ps) ''cmc'' = Some (PFloat 1)
      \<and> map_of (clean_props ps) ''edhrec_rank'' = None
      \<and> map_of (clean_props ps) ''name'' = Some (PStr ''Bolt'')
      \<and> PNone \<notin> snd ` set (clean_props ps)"
    using t1 p1 k1 by (intro exI [of _ ps1]) (force simp: bolt_def empty_card_def)
  obtain ps2 where p2: "extract_props exact_lib ?b2 = Inr ps2"
    by (simp add: extract_props_def cmc_value_def edhrec_rank_value_def bolt_def empty_card_def
        exact_lib_def)
  have b: "\<exists>ps. extract_props exact_lib ?b2 = Inr ps
      \<and> map_of (clean_props ps) ''cmc'' = Some (PFloat 3)
      \<and> map_of (clean_props ps) ''edhrec_rank'' = Some (PInt 2)
      \<and> map_of (clean_props ps) ''name'' = None
      \<and> PNone \<notin> snd ` set (clean_props ps)"
    using t2 p2 by (intro exI [of _ ps2]) (force simp: bolt_def empty_card_def exact_lib_def)
  have c: "extract_props bounded_lib (bolt\<lparr>c_cmc := Some (JInt (2 ^ 1024))\<rparr>) = Inl OverflowError"
    using t3
    by (simp add: bolt_def empty_card_def bounded_lib_def exact_lib_def extract_props_def
        cmc_value_def edhrec_rank_value_def)
  have d: "\<exists>obj. compute_objects args0 ST unit_encoder exact_lib [empty_card, bolt] 0 = Inr [obj]
        \<and> o_id obj = ''a''
        \<and> map fst (o_properties obj) =
            [''scryfall_id'', ''name'', ''mana_cost'', ''cmc'', ''type_line'', ''oracle_text'',
             ''power'', ''toughness'', ''colors'', ''color_identity'', ''keywords'', ''set'',
             ''collector_number'', ''rarity'', ''layout'', ''image_small'', ''image_normal'',
             ''legalities'']
        \<and> map_of (o_properties obj) ''cmc'' = Some (PFloat 1)
        \<and> PNone \<notin> snd ` set (o_properties obj)
        \<and> o_vector obj = [1]"
    by (simp add: compute_objects_def window_init_def window_body_def args0_def bolt_def
        empty_card_def extract_props_def cmc_value_def edhrec_rank_value_def exact_lib_def
        Let_def encode_all_def batch_size_of_def
        embed_loop_pointwise [of unit_encoder "\<lambda>t. [1]"] unit_encoder_def l2_normalize_def
        assemble_def make_object_def clean_props_def)
  show ?thesis using a b c d by blast
qed

lemma main_unfold:
  "main args knd enc lib cards flt fs =
     (case compute_objects args knd enc lib cards (fst (resolve_start_offset args fs)) of
        Inl e \<Rightarrow> Inl e
      | Inr objects \<Rightarrow>
          if batch_write flt \<noteq> Written then Inl OSError
          else if arg_checkpoint args \<noteq> []
          then Inr (fst (commit args knd (fst (resolve_start_offset args fs)) objects
                           (int (length cards)) (checkpoint_write flt)
                           (fs(arg_batch_out args := BatchFile objects))),
                    snd (resolve_start_offset args fs)
                      @ [WroteBatch (length objects) (arg_batch_out args)]
                      @ snd (commit args knd (fst (resolve_start_offset args fs)) objects
                           (int (length cards)) (checkpoint_write flt)
                           (fs(arg_batch_out args := BatchFile objects))))
          else Inr (fs(arg_batch_out args := BatchFile objects),
                    snd (resolve_start_offset args fs)
                      @ [WroteBatch (length objects) (arg_batch_out args)]))"
  by (simp add: main_def split_beta Let_def split: sum.splits)

lemma resolve_raised:
  assumes "read_cp_off (fs (arg_checkpoint args)) = Raised" and "arg_checkpoint args \<noteq> []"
  shows "resolve_start_offset args fs = (arg_offset args, [WarnReadCheckpoint])"
    and "resolve_start_offset args (fs(arg_checkpoint args := NoFile)) = (arg_offset args, [])"
  using assms by (simp_all add: resolve_start_offset_def)

lemma commit_batch_path:
  "fst (commit args knd start objects tot wr (fs(arg_checkpoint args := f, b := g))) b
     = fst (commit args knd start objects tot wr (fs(b := g))) b"
  by (cases wr) (simp_all add: commit_def Let_def)

lemma commit_messages:
  "snd (commit args knd start objects tot wr fs) = snd (commit args knd start objects tot wr fs')"
  by (cases wr) (simp_all add: commit_def Let_def)

lemma main_raised:
  assumes "read_cp_off (fs (arg_checkpoint args)) = Raised" and "arg_checkpoint args \<noteq> []"
  shows "(main args knd enc lib cards flt fs = Inl e)
           = (main args knd enc lib cards flt (fs(arg_checkpoint args := NoFile)) = Inl e)"
    and "main args knd enc lib cards flt (fs(arg_checkpoint args := NoFile)) = Inr (fs', out) \<Longrightarrow>
         \<exists>fs''. main args knd enc lib cards flt fs = Inr (fs'', WarnReadCheckpoint # out)
                \<and> fs'' (arg_batch_out args) = fs' (arg_batch_out args)"
proof -
  note r = resolve_raised [of fs args, OF assms]
  show "(main args knd enc lib cards flt fs = Inl e)
           = (main args knd enc lib cards flt (fs(arg_checkpoint args := NoFile)) = Inl e)"
    using assms(2) by (simp add: main_unfold r split: sum.splits)
  assume m: "main args knd enc lib cards flt (fs(arg_checkpoint args := NoFile)) = Inr (fs', out)"
  then obtain objects where
    c: "compute_objects args knd enc lib cards (arg_offset args) = Inr objects"
    by (auto simp: main_unfold r split: sum.splits)
  have w: "batch_write flt = Written"
    using m by (auto simp: main_unfold r c split: if_splits)
  let ?commit = "\<lambda>fs. commit args knd (arg_offset args) objects (int (length cards))
                   (checkpoint_write flt) fs"
  have fs': "fs' = fst (?commit (fs(arg_checkpoint args := NoFile, arg_batch_out args := BatchFile objects)))"
    and out: "out = [WroteBatch (length objects) (arg_batch_out args)]
                @ snd (?commit (fs(arg_checkpoint args := NoFile, arg_batch_out args := BatchFile objects)))"
    using m assms(2) by (auto simp: main_unfold r c w)
  have "main args knd enc lib cards flt fs =
          Inr (fst (?commit (fs(arg_batch_out args := BatchFile objects))),
               WarnReadCheckpoint # [WroteBatch (length objects) (arg_batch_out args)]
                 @ snd (?commit (fs(arg_batch_out args := BatchFile objects))))"
    using assms(2) by (simp add: main_unfold r c w)
  moreover have "snd (?commit (fs(arg_batch_out args := BatchFile objects)))
      = snd (?commit (fs(arg_checkpoint args := NoFile, arg_batch_out args := BatchFile objects)))"
    by (rule commit_messages)
  moreover have "fst (?commit (fs(arg_batch_out args := BatchFile objects))) (arg_batch_out args)
      = fs' (arg_batch_out args)"
    unfolding fs' by (rule commit_batch_path [symmetric])
  ultimately show "\<exists>fs''. main args knd enc lib cards flt fs = Inr (fs'', WarnReadCheckpoint # out)
                \<and> fs'' (arg_batch_out args) = fs' (arg_batch_out args)"
    unfolding out by simp
qed

lemma main_succeeds:
  assumes "\<forall>batch. length (enc batch) = length batch" and "batch_write flt = Written"
    and "\<forall>c\<in>set cards. truthy (c_id c) \<longrightarrow> (\<exists>ps. extract_props lib c = Inr ps)"
  shows "\<exists>fs' out. main args knd enc lib cards flt fs = Inr (fs', out)
           \<and> (arg_batch_out args \<noteq> arg_checkpoint args \<longrightarrow>
                (\<exists>objects. fs' (arg_batch_out args) = BatchFile objects))"
proof -
  from window_loop_returns [OF assms(3)] obtain w pos where
    "window_loop args lib (fst (resolve_start_offset args fs)) cards 0 window_init = Inr (w, pos)"
    by blast
  from compute_objects_ok [OF assms(1) this] obtain objects where
    c: "compute_objects args knd enc lib cards (fst (resolve_start_offset args fs)) = Inr objects"
    by blast
  have other: "\<And>wr f. arg_batch_out args \<noteq> arg_checkpoint args \<Longrightarrow>
      fst (commit args knd (fst (resolve_start_offset args fs)) objects (int (length cards)) wr f)
        (arg_batch_out args) = f (arg_batch_out args)"
    by (case_tac wr) (simp_all add: commit_def Let_def)
  show ?thesis
    using assms(2) other by (simp add: main_unfold c)
qed

text \<open>
  C7, as the code has it. An explicit offset that is not zero is the start offset. With
  no explicit offset, a checkpoint that can be read and whose \<^verbatim>\<open>next_offset\<close> is positive
  gives the start offset; in every other case (no checkpoint path, no file, a file that
  cannot be read, a \<^verbatim>\<open>next_offset\<close> that is zero or negative) the start offset is 0. A
  warning is printed exactly when reading the file raises something else than
  \<^verbatim>\<open>FileNotFoundError\<close>; the run then goes on as if the file did not exist: it fails or
  succeeds alike, prints the same after the warning and leaves the same batch file.
  Whatever the checkpoint file holds, a run whose encoder returns one row for every text,
  whose batch file can be written, and over cards whose properties can all be extracted,
  ends normally and leaves a batch file.
\<close>

theorem resolve_start_offset_rule:
  "(arg_offset args \<noteq> 0 \<longrightarrow> fst (resolve_start_offset args fs) = arg_offset args)
   \<and> (\<forall>n. arg_offset args = 0 \<and> arg_checkpoint args \<noteq> []
          \<and> read_cp_off (fs (arg_checkpoint args)) = CpOff n \<and> 0 < n \<longrightarrow>
          fst (resolve_start_offset args fs) = n)
   \<and> (arg_offset args = 0
        \<and> (arg_checkpoint args = []
            \<or> read_cp_off (fs (arg_checkpoint args)) = NotFound
            \<or> read_cp_off (fs (arg_checkpoint args)) = Raised
            \<or> (\<exists>n. read_cp_off (fs (arg_checkpoint args)) = CpOff n \<and> n \<le> 0)) \<longrightarrow>
        fst (resolve_start_offset args fs) = 0)
   \<and> snd (resolve_start_offset args fs)
       = (if arg_checkpoint args \<noteq> [] \<and> read_cp_off (fs (arg_checkpoint args)) = Raised
          then [WarnReadCheckpoint] else [])
   \<and> (arg_checkpoint args \<noteq> [] \<and> read_cp_off (fs (arg_checkpoint args)) = Raised \<longrightarrow>
        fst (resolve_start_offset args fs)
          = fst (resolve_start_offset args (fs(arg_checkpoint args := NoFile)))
        \<and> (\<forall>e. (main args knd enc lib cards flt fs = Inl e)
                 = (main args knd enc lib cards flt (fs(arg_checkpoint args := NoFile)) = Inl e))
        \<and> (\<forall>fs' out.
              main args knd enc lib cards flt (fs(arg_checkpoint args := NoFile)) = Inr (fs', out)
              \<longrightarrow> (\<exists>fs''. main args knd enc lib cards flt fs
                              = Inr (fs'', WarnReadCheckpoint # out)
                         \<and> fs'' (arg_batch_out args) = fs' (arg_batch_out args))))
   \<and> ((\<forall>batch. length (enc batch) = length batch) \<and> batch_write flt = Written
        \<and> (\<forall>c\<in>set cards. truthy (c_id c) \<longrightarrow> (\<exists>ps. extract_props lib c = Inr ps)) \<longrightarrow>
        (\<exists>fs' out. main args knd enc lib cards flt fs = Inr (fs', out)
           \<and> (arg_batch_out args \<noteq> arg_checkpoint args \<longrightarrow>
                (\<exists>objects. fs' (arg_batch_out args) = BatchFile objects))))"
proof (intro conjI impI allI)
  assume "arg_offset args \<noteq> 0"
  then show "fst (resolve_start_offset args fs) = arg_offset args"
    by (simp add: resolve_start_offset_def Let_def split: cp_read.splits)
next
  fix n
  assume "arg_offset args = 0 \<and> arg_checkpoint args \<noteq> []
          \<and> read_cp_off (fs (arg_checkpoint args)) = CpOff n \<and> 0 < n"
  then show "fst (resolve_start_offset args fs) = n"
    by (simp add: resolve_start_offset_def Let_def)
next
  assume "arg_offset args = 0
        \<and> (arg_checkpoint args = []
            \<or> read_cp_off (fs (arg_checkpoint args)) = NotFound
            \<or> read_cp_off (fs (arg_checkpoint args)) = Raised
            \<or> (\<exists>n. read_cp_off (fs (arg_checkpoint args)) = CpOff n \<and> n \<le> 0))"
  then show "fst (resolve_start_offset args fs) = 0"
    by (auto simp: resolve_start_offset_def Let_def split: cp_read.splits)
next
  show "snd (resolve_start_offset args fs)
       = (if arg_checkpoint args \<noteq> [] \<and> read_cp_off (fs (arg_checkpoint args)) = Raised
          then [WarnReadCheckpoint] else [])"
    by (simp add: resolve_start_offset_def Let_def split: cp_read.splits)
next
  assume a: "arg_checkpoint args \<noteq> [] \<and> read_cp_off (fs (arg_checkpoint args)) = Raised"
  then have r: "read_cp_off (fs (arg_checkpoint args)) = Raised" and p: "arg_checkpoint args \<noteq> []"
    by simp_all
  show "fst (resolve_start_offset args fs)
          = fst (resolve_start_offset args (fs(arg_checkpoint args := NoFile)))"
    by (simp add: resolve_raised [of fs args, OF r p])
  show "\<And>e. (main args knd enc lib cards flt fs = Inl e)
                 = (main args knd enc lib cards flt (fs(arg_checkpoint args := NoFile)) = Inl e)"
    by (rule main_raised(1) [where fs=fs and args=args, OF r p])
  show "\<And>fs' out.
              main args knd enc lib cards flt (fs(arg_checkpoint args := NoFile)) = Inr (fs', out)
              \<Longrightarrow> (\<exists>fs''. main args knd enc lib cards flt fs
                              = Inr (fs'', WarnReadCheckpoint # out)
                         \<and> fs'' (arg_batch_out args) = fs' (arg_batch_out args))"
    by (rule main_raised(2) [where fs=fs and args=args, OF r p])
next
  assume "(\<forall>batch. length (enc batch) = length batch) \<and> batch_write flt = Written
        \<and> (\<forall>c\<in>set cards. truthy (c_id c) \<longrightarrow> (\<exists>ps. extract_props lib c = Inr ps))"
  then show "\<exists>fs' out. main args knd enc lib cards flt fs = Inr (fs', out)
           \<and> (arg_batch_out args \<noteq> arg_checkpoint args \<longrightarrow>
                (\<exists>objects. fs' (arg_batch_out args) = BatchFile objects))"
    using main_succeeds by blast
qed

text \<open>
  A run with \<^verbatim>\<open>--offset -3\<close> over one card commits the checkpoint \<open>-2\<close>; the next run,
  with no explicit offset, reads it and starts at 0, not at \<open>-2\<close>.
\<close>

theorem resolve_start_offset_counterexample:
  "(case main (args0\<lparr>arg_offset := - 3\<rparr>) ST unit_encoder exact_lib [card_with_id ''a'']
           no_faults (\<lambda>p. NoFile :: real disk_file) of
      Inl e \<Rightarrow> False
    | Inr (fs1, out1) \<Rightarrow>
        read_cp_off (fs1 (arg_checkpoint args0)) = CpOff (- 2)
        \<and> arg_offset args0 = 0
        \<and> fst (resolve_start_offset args0 fs1) = 0
        \<and> fst (resolve_start_offset args0 fs1) \<noteq> - 2)"
  by (simp add: main_def resolve_start_offset_def args0_def window_init_def window_body_def
      card_with_id_def empty_card_def extract_props_def cmc_value_def
      edhrec_rank_value_def exact_lib_def l2_normalize_def Let_def compute_objects_def encode_all_def batch_size_of_def
      embed_loop_pointwise [of unit_encoder "\<lambda>t. [1]"] unit_encoder_def assemble_def
      make_object_def no_faults_def commit_def)

theorem resolve_start_offset_rule_witness:
  "fst (resolve_start_offset (args0\<lparr>arg_offset := 7\<rparr>)
          ((\<lambda>p. NoFile :: real disk_file)(''cp.json'' := CheckpointFile prior_checkpoint))) = 7
   \<and> fst (resolve_start_offset args0
          ((\<lambda>p. NoFile :: real disk_file)(''cp.json'' := CheckpointFile prior_checkpoint))) = 2
   \<and> fst (resolve_start_offset args0 (\<lambda>p. NoFile :: real disk_file)) = 0
   \<and> resolve_start_offset args0 ((\<lambda>p. NoFile :: real disk_file)(''cp.json'' := JsonObject BadValue))
       = (0, [WarnReadCheckpoint])
   \<and> resolve_start_offset args0 ((\<lambda>p. NoFile :: real disk_file)(''cp.json'' := Unreadable))
       = (0, [WarnReadCheckpoint])
   \<and> (\<exists>fs'. main args0 ST unit_encoder exact_lib cards5 no_faults
                ((\<lambda>p. NoFile :: real disk_file)(''cp.json'' := Unreadable))
              = Inr (fs', [WarnReadCheckpoint, WroteBatch 2 ''out.json'',
                           UpdatedCheckpoint ''cp.json'' 2 5])
            \<and> batch_ids (fs' ''out.json'') = [''a'', ''b''])"
proof -
  let ?garbled = "(\<lambda>p. NoFile :: real disk_file)(''cp.json'' := Unreadable)"
  have len: "\<forall>batch. length (unit_encoder batch) = length batch"
    by (simp add: unit_encoder_def)
  have clean: "main args0 ST unit_encoder exact_lib cards5 no_faults (?garbled(arg_checkpoint args0 := NoFile))
      = Inr (((\<lambda>p. NoFile :: real disk_file)(''out.json'' := BatchFile
                [\<lparr>o_class = ''Card'', o_id = ''a'',
                    o_properties = clean_props (projr (extract_props exact_lib (card_with_id ''a''))),
                    o_vector = [1]\<rparr>,
                 \<lparr>o_class = ''Card'', o_id = ''b'',
                    o_properties = clean_props (projr (extract_props exact_lib (card_with_id ''b''))),
                    o_vector = [1]\<rparr>]))
             (''cp.json'' := CheckpointFile
                \<lparr>cp_next_offset = 2, cp_total = 5, cp_last_batch_out = ''out.json'',
                   cp_model = ''m'', cp_include_name = False, cp_kind = ST\<rparr>),
             [WroteBatch 2 ''out.json'', UpdatedCheckpoint ''cp.json'' 2 5])"
    by (simp add: main_def resolve_start_offset_def args0_def window_init_def window_body_def
      cards5_def card_with_id_def empty_card_def extract_props_def cmc_value_def
      edhrec_rank_value_def exact_lib_def l2_normalize_def Let_def compute_objects_def encode_all_def
      batch_size_of_def embed_loop_pointwise [of unit_encoder "\<lambda>t. [1]"] unit_encoder_def
      assemble_def make_object_def no_faults_def commit_def l2_normalize_def fun_upd_twist)
  note t7 = resolve_start_offset_rule [of "args0\<lparr>arg_offset := 7\<rparr>"
      "(\<lambda>p. NoFile :: real disk_file)(''cp.json'' := CheckpointFile prior_checkpoint)"
      ST unit_encoder exact_lib cards5 no_faults]
  note t2 = resolve_start_offset_rule [of args0
      "(\<lambda>p. NoFile :: real disk_file)(''cp.json'' := CheckpointFile prior_checkpoint)"
      ST unit_encoder exact_lib cards5 no_faults]
  note t0 = resolve_start_offset_rule [of args0 "\<lambda>p. NoFile :: real disk_file"
      ST unit_encoder exact_lib cards5 no_faults]
  note tb = resolve_start_offset_rule [of args0 "(\<lambda>p. NoFile :: real disk_file)(''cp.json'' := JsonObject BadValue)"
      ST unit_encoder exact_lib cards5 no_faults]
  note tu = resolve_start_offset_rule [of args0 ?garbled
      ST unit_encoder exact_lib cards5 no_faults]
  have a: "fst (resolve_start_offset (args0\<lparr>arg_offset := 7\<rparr>)
          ((\<lambda>p. NoFile :: real disk_file)(''cp.json'' := CheckpointFile prior_checkpoint))) = 7"
    using t7 by (simp add: args0_def)
  have b: "fst (resolve_start_offset args0
          ((\<lambda>p. NoFile :: real disk_file)(''cp.json'' := CheckpointFile prior_checkpoint))) = 2"
    using t2 by (simp add: args0_def prior_checkpoint_def)
  have c: "fst (resolve_start_offset args0 (\<lambda>p. NoFile :: real disk_file)) = 0"
    using t0 by (simp add: args0_def)
  have d: "resolve_start_offset args0 ((\<lambda>p. NoFile :: real disk_file)(''cp.json'' := JsonObject BadValue))
       = (0, [WarnReadCheckpoint])"
    using tb by (simp add: args0_def prod_eq_iff)
  have e: "resolve_start_offset args0 ?garbled = (0, [WarnReadCheckpoint])"
    using tu by (simp add: args0_def prod_eq_iff)
  have r: "arg_checkpoint args0 \<noteq> [] \<and> read_cp_off (?garbled (arg_checkpoint args0)) = Raised"
    by (simp add: args0_def)
  from tu r clean have
    "\<exists>fs''. main args0 ST unit_encoder exact_lib cards5 no_faults ?garbled
              = Inr (fs'', WarnReadCheckpoint # [WroteBatch 2 ''out.json'', UpdatedCheckpoint ''cp.json'' 2 5])
            \<and> fs'' (arg_batch_out args0) = BatchFile
                [\<lparr>o_class = ''Card'', o_id = ''a'',
                    o_properties = clean_props (projr (extract_props exact_lib (card_with_id ''a''))),
                    o_vector = [1]\<rparr>,
                 \<lparr>o_class = ''Card'', o_id = ''b'',
                    o_properties = clean_props (projr (extract_props exact_lib (card_with_id ''b''))),
                    o_vector = [1]\<rparr>]"
    by (simp add: args0_def)
  then have f: "\<exists>fs'. main args0 ST unit_encoder exact_lib cards5 no_faults ?garbled
              = Inr (fs', [WarnReadCheckpoint, WroteBatch 2 ''out.json'',
                           UpdatedCheckpoint ''cp.json'' 2 5])
            \<and> batch_ids (fs' ''out.json'') = [''a'', ''b'']"
    by (auto simp: args0_def batch_ids_def)
  show ?thesis using a b c d e f by blast
qed

text \<open>
  C8, as the code has it, for a run with a checkpoint path. The checkpoint is written in
  place: the file is opened for writing, which empties it, and then filled. A write that
  completes leaves \<^verbatim>\<open>next_offset = start_offset + len(objects)\<close>, the number of cards and
  the run's metadata, and prints the update. A write that fails prints the warning only,
  and changes no other file than the checkpoint; if it fails at opening the file, the
  file stays as it was. A run that has computed its objects and written its batch file
  ends normally whatever the checkpoint write does, and its batch file, when it is not
  the checkpoint path itself, holds the objects.
\<close>

theorem commit_rule:
  "arg_checkpoint args \<noteq> [] \<longrightarrow>
     commit args knd start objects tot Written fs
       = (fs(arg_checkpoint args := CheckpointFile
               \<lparr>cp_next_offset = start + int (length objects), cp_total = tot,
                  cp_last_batch_out = arg_batch_out args, cp_model = arg_model args,
                  cp_include_name = arg_include_name args, cp_kind = knd\<rparr>),
          [UpdatedCheckpoint (arg_checkpoint args) (start + int (length objects)) tot])
     \<and> commit args knd start objects tot OpenRaises fs = (fs, [WarnWriteCheckpoint])
     \<and> snd (commit args knd start objects tot DumpRaises fs) = [WarnWriteCheckpoint]
     \<and> (\<forall>wr p. p \<noteq> arg_checkpoint args \<longrightarrow>
           fst (commit args knd start objects tot wr fs) p = fs p)
     \<and> (\<forall>objs. compute_objects args knd enc lib cards (fst (resolve_start_offset args fs))
                  = Inr objs
               \<and> batch_write flt = Written \<longrightarrow>
           (\<exists>fs' out. main args knd enc lib cards flt fs = Inr (fs', out)
              \<and> (arg_batch_out args \<noteq> arg_checkpoint args \<longrightarrow>
                   fs' (arg_batch_out args) = BatchFile objs)
              \<and> (checkpoint_write flt = Written \<longrightarrow>
                   fs' (arg_checkpoint args) = CheckpointFile
                     \<lparr>cp_next_offset = fst (resolve_start_offset args fs) + int (length objs),
                        cp_total = int (length cards),
                        cp_last_batch_out = arg_batch_out args, cp_model = arg_model args,
                        cp_include_name = arg_include_name args, cp_kind = knd\<rparr>)
              \<and> (checkpoint_write flt \<noteq> Written \<longrightarrow> last out = WarnWriteCheckpoint)
              \<and> (checkpoint_write flt = OpenRaises
                    \<and> arg_batch_out args \<noteq> arg_checkpoint args \<longrightarrow>
                   fs' (arg_checkpoint args) = fs (arg_checkpoint args))))"
proof (intro impI conjI allI)
  show "commit args knd start objects tot Written fs
       = (fs(arg_checkpoint args := CheckpointFile
               \<lparr>cp_next_offset = start + int (length objects), cp_total = tot,
                  cp_last_batch_out = arg_batch_out args, cp_model = arg_model args,
                  cp_include_name = arg_include_name args, cp_kind = knd\<rparr>),
          [UpdatedCheckpoint (arg_checkpoint args) (start + int (length objects)) tot])"
    by (simp add: commit_def Let_def)
  show "commit args knd start objects tot OpenRaises fs = (fs, [WarnWriteCheckpoint])"
    by (simp add: commit_def Let_def)
  show "snd (commit args knd start objects tot DumpRaises fs) = [WarnWriteCheckpoint]"
    by (simp add: commit_def Let_def)
next
  fix wr p
  assume "p \<noteq> arg_checkpoint args"
  then show "fst (commit args knd start objects tot wr fs) p = fs p"
    by (cases wr) (simp_all add: commit_def Let_def)
next
  fix objs
  assume p: "arg_checkpoint args \<noteq> []"
    and "compute_objects args knd enc lib cards (fst (resolve_start_offset args fs)) = Inr objs
               \<and> batch_write flt = Written"
  then have c: "compute_objects args knd enc lib cards (fst (resolve_start_offset args fs)) = Inr objs"
    and w: "batch_write flt = Written" by simp_all
  let ?commit = "commit args knd (fst (resolve_start_offset args fs)) objs (int (length cards))
                   (checkpoint_write flt) (fs(arg_batch_out args := BatchFile objs))"
  have m: "main args knd enc lib cards flt fs =
             Inr (fst ?commit,
                  snd (resolve_start_offset args fs)
                    @ [WroteBatch (length objs) (arg_batch_out args)] @ snd ?commit)"
    using p by (simp add: main_unfold c w)
  have 1: "arg_batch_out args \<noteq> arg_checkpoint args \<longrightarrow>
             fst ?commit (arg_batch_out args) = BatchFile objs"
    by (cases "checkpoint_write flt") (simp_all add: commit_def Let_def)
  have 2: "checkpoint_write flt = Written \<longrightarrow>
             fst ?commit (arg_checkpoint args) = CheckpointFile
                     \<lparr>cp_next_offset = fst (resolve_start_offset args fs) + int (length objs),
                        cp_total = int (length cards),
                        cp_last_batch_out = arg_batch_out args, cp_model = arg_model args,
                        cp_include_name = arg_include_name args, cp_kind = knd\<rparr>"
    by (simp add: commit_def Let_def)
  have 3: "checkpoint_write flt \<noteq> Written \<longrightarrow>
             last (snd (resolve_start_offset args fs)
                    @ [WroteBatch (length objs) (arg_batch_out args)] @ snd ?commit)
               = WarnWriteCheckpoint"
    by (cases "checkpoint_write flt") (simp_all add: commit_def Let_def)
  have 4: "checkpoint_write flt = OpenRaises \<and> arg_batch_out args \<noteq> arg_checkpoint args \<longrightarrow>
             fst ?commit (arg_checkpoint args) = fs (arg_checkpoint args)"
    by (auto simp: commit_def Let_def)
  show "\<exists>fs' out. main args knd enc lib cards flt fs = Inr (fs', out)
              \<and> (arg_batch_out args \<noteq> arg_checkpoint args \<longrightarrow>
                   fs' (arg_batch_out args) = BatchFile objs)
              \<and> (checkpoint_write flt = Written \<longrightarrow>
                   fs' (arg_checkpoint args) = CheckpointFile
                     \<lparr>cp_next_offset = fst (resolve_start_offset args fs) + int (length objs),
                        cp_total = int (length cards),
                        cp_last_batch_out = arg_batch_out args, cp_model = arg_model args,
                        cp_include_name = arg_include_name args, cp_kind = knd\<rparr>)
              \<and> (checkpoint_write flt \<noteq> Written \<longrightarrow> last out = WarnWriteCheckpoint)
              \<and> (checkpoint_write flt = OpenRaises
                    \<and> arg_batch_out args \<noteq> arg_checkpoint args \<longrightarrow>
                   fs' (arg_checkpoint args) = fs (arg_checkpoint args))"
    using m 1 2 3 4 by blast
qed

text \<open>
  A run that finds a valid checkpoint and whose checkpoint write fails after the file was
  opened: the run ends normally, with its batch file, and the checkpoint file is no
  longer the valid one it was, but a file that cannot be read.
\<close>

theorem commit_counterexample:
  "(case main args0 ST unit_encoder exact_lib cards5
           \<lparr>batch_write = Written, checkpoint_write = DumpRaises\<rparr>
           ((\<lambda>p. NoFile :: real disk_file)(''cp.json'' := CheckpointFile prior_checkpoint)) of
      Inl e \<Rightarrow> False
    | Inr (fs', out) \<Rightarrow>
        batch_ids (fs' ''out.json'') = [''b'', ''c'']
        \<and> last out = WarnWriteCheckpoint
        \<and> fs' ''cp.json'' = Unreadable
        \<and> fs' ''cp.json'' \<noteq> CheckpointFile prior_checkpoint
        \<and> read_cp_off (fs' ''cp.json'') = Raised)"
  by (simp add: main_def resolve_start_offset_def args0_def window_init_def window_body_def
      cards5_def card_with_id_def empty_card_def extract_props_def cmc_value_def
      edhrec_rank_value_def exact_lib_def l2_normalize_def Let_def compute_objects_def encode_all_def
      batch_size_of_def embed_loop_pointwise [of unit_encoder "\<lambda>t. [1]"] unit_encoder_def
      assemble_def make_object_def commit_def prior_checkpoint_def batch_ids_def)

theorem commit_rule_witness:
  "commit args0 ST 2 [] 5 Written (\<lambda>p. NoFile :: real disk_file)
     = ((\<lambda>p. NoFile :: real disk_file)(''cp.json'' := CheckpointFile prior_checkpoint),
        [UpdatedCheckpoint ''cp.json'' 2 5])
   \<and> commit args0 ST 2 [] 5 OpenRaises (\<lambda>p. NoFile :: real disk_file) = (\<lambda>p. NoFile :: real disk_file, [WarnWriteCheckpoint])
   \<and> snd (commit args0 ST 2 [] 5 DumpRaises (\<lambda>p. NoFile :: real disk_file)) = [WarnWriteCheckpoint]
   \<and> fst (commit args0 ST 2 [] 5 DumpRaises ((\<lambda>p. NoFile :: real disk_file)(''out.json'' := BatchFile [])))
         ''out.json'' = BatchFile []
   \<and> (\<exists>fs' out. main args0 ST unit_encoder exact_lib []
                     \<lparr>batch_write = Written, checkpoint_write = OpenRaises\<rparr>
                     ((\<lambda>p. NoFile :: real disk_file)(''cp.json'' := CheckpointFile prior_checkpoint)) = Inr (fs', out)
        \<and> fs' ''out.json'' = BatchFile []
        \<and> last out = WarnWriteCheckpoint
        \<and> fs' ''cp.json'' = CheckpointFile prior_checkpoint)
   \<and> (\<exists>fs' out. main args0 ST unit_encoder exact_lib [] no_faults
                     ((\<lambda>p. NoFile :: real disk_file)(''cp.json'' := CheckpointFile prior_checkpoint)) = Inr (fs', out)
        \<and> fs' ''out.json'' = BatchFile []
        \<and> read_cp_off (fs' ''cp.json'') = CpOff 2)"
proof -
  let ?fs = "(\<lambda>p. NoFile :: real disk_file)(''cp.json'' := CheckpointFile prior_checkpoint)"
  let ?flt = "\<lparr>batch_write = Written, checkpoint_write = OpenRaises\<rparr>"
  have p: "arg_checkpoint args0 \<noteq> []" by (simp add: args0_def)
  have c: "compute_objects args0 ST unit_encoder exact_lib [] (fst (resolve_start_offset args0 ?fs))
             = Inr [] \<and> batch_write ?flt = Written"
    by (simp add: compute_objects_def encode_all_def batch_size_of_def window_init_def
        embed_loop_pointwise [of unit_encoder "\<lambda>t. [1]"] unit_encoder_def assemble_def)
  have c': "compute_objects args0 ST unit_encoder exact_lib [] (fst (resolve_start_offset args0 ?fs))
             = Inr [] \<and> batch_write no_faults = Written"
    using c by (simp add: no_faults_def)
  have r: "fst (resolve_start_offset args0 ?fs) = 2"
    by (simp add: resolve_start_offset_def Let_def args0_def prior_checkpoint_def)
  note t = commit_rule [of args0 ST 2 "[]" 5 "\<lambda>p. NoFile :: real disk_file" unit_encoder exact_lib "[]" ?flt, rule_format, OF p]
  note v = commit_rule [of args0 ST 2 "[]" 5 "(\<lambda>p. NoFile :: real disk_file)(''out.json'' := BatchFile [])"
      unit_encoder exact_lib "[]" ?flt, rule_format, OF p]
  note u = commit_rule [of args0 ST 2 "[]" 5 ?fs unit_encoder exact_lib "[]" ?flt, rule_format, OF p]
  note n = commit_rule [of args0 ST 2 "[]" 5 ?fs unit_encoder exact_lib "[]" no_faults, rule_format, OF p]
  have a: "commit args0 ST 2 [] 5 Written (\<lambda>p. NoFile :: real disk_file)
     = ((\<lambda>p. NoFile :: real disk_file)(''cp.json'' := CheckpointFile prior_checkpoint),
        [UpdatedCheckpoint ''cp.json'' 2 5])"
    using t by (simp add: args0_def prior_checkpoint_def)
  have b: "commit args0 ST 2 [] 5 OpenRaises (\<lambda>p. NoFile :: real disk_file) = (\<lambda>p. NoFile :: real disk_file, [WarnWriteCheckpoint])"
    using t by simp
  have d: "snd (commit args0 ST 2 [] 5 DumpRaises (\<lambda>p. NoFile :: real disk_file)) = [WarnWriteCheckpoint]"
    using t by simp
  have e: "fst (commit args0 ST 2 [] 5 DumpRaises ((\<lambda>p. NoFile :: real disk_file)(''out.json'' := BatchFile [])))
         ''out.json'' = BatchFile []"
    using v by (simp add: args0_def)
  have f: "\<exists>fs' out. main args0 ST unit_encoder exact_lib [] ?flt ?fs = Inr (fs', out)
        \<and> fs' ''out.json'' = BatchFile []
        \<and> last out = WarnWriteCheckpoint
        \<and> fs' ''cp.json'' = CheckpointFile prior_checkpoint"
    using u c by (simp add: args0_def)
  have g: "\<exists>fs' out. main args0 ST unit_encoder exact_lib [] no_faults ?fs = Inr (fs', out)
        \<and> fs' ''out.json'' = BatchFile []
        \<and> read_cp_off (fs' ''cp.json'') = CpOff 2"
    using n c' r by (auto simp: args0_def no_faults_def)
  show ?thesis using a b d e f g by blast
qed


section \<open>Resuming from the checkpoint\<close>

text \<open>
  A card without identifier inside the window makes the committed offset fall short of
  the position the loop has reached.
\<close>

lemma resume_short:
  assumes run1: "window_loop args lib start cards 0 window_init = Inr (w1, pos1)"
    and start: "0 \<le> start"
    and gap: "nat start \<le> j \<and> j < pos1 \<and> \<not> truthy (c_id (cards ! j))"
  shows "start + int (length (w_idx_map w1)) < int pos1"
proof -
  let ?s = "nat start"
  note f = window_from_init [OF run1]
  have len: "pos1 \<le> length cards" using f by simp
  then have k: "min ?s (length cards) = ?s" using gap by simp
  let ?win = "take (pos1 - ?s) (drop ?s cards)"
  have idx: "w_idx_map w1 = map (\<lambda>c. (or_empty (c_id c), projr (extract_props lib c)))
                              (filter (\<lambda>c. truthy (c_id c)) ?win)"
    using f unfolding k by simp
  have lw: "length ?win = pos1 - ?s" using len by simp
  have js: "?s \<le> j" "j < pos1" using gap by simp_all
  have in_win: "j - ?s < pos1 - ?s" using js by arith
  have "?win ! (j - ?s) = drop ?s cards ! (j - ?s)" using in_win by (rule nth_take)
  also have "\<dots> = cards ! (?s + (j - ?s))" using js len by (intro nth_drop) arith
  also have "\<dots> = cards ! j" using js by simp
  finally have "?win ! (j - ?s) = cards ! j" .
  moreover have "j - ?s < length ?win" using in_win lw by simp
  ultimately have "cards ! j \<in> set ?win" by (metis nth_mem)
  moreover have "\<not> truthy (c_id (cards ! j))" using gap by blast
  ultimately have "length (filter (\<lambda>c. truthy (c_id c)) ?win) < length ?win"
    by (rule length_filter_less)
  then have "length (w_idx_map w1) < pos1 - ?s" using idx lw by simp
  then show ?thesis using start by simp
qed

text \<open>
  The run resumed from the committed offset: the cards with identifier between the
  committed offset and the position the first run had reached end the first batch and
  begin the second.
\<close>

lemma resume_overlap:
  assumes run1: "window_loop args lib start cards 0 window_init = Inr (w1, pos1)"
    and run2: "window_loop args lib (start + int (length (w_idx_map w1))) cards 0 window_init
                 = Inr (w2, pos2)"
    and start: "0 \<le> start"
  defines "nx \<equiv> nat (start + int (length (w_idx_map w1)))"
  defines "R \<equiv> map (\<lambda>c. (or_empty (c_id c), projr (extract_props lib c)))
                  (filter (\<lambda>c. truthy (c_id c)) (take (pos1 - nx) (drop nx cards)))"
  shows "(\<exists>A B. w_idx_map w1 = A @ R \<and> w_idx_map w2 = R @ B)
     \<and> (\<forall>c \<in> set (filter (\<lambda>c. truthy (c_id c)) (take (pos1 - nx) (drop nx cards))).
           \<exists>ps. extract_props lib c = Inr ps)"
proof (cases "nat start \<le> length cards")
  case False
  then have k: "min (nat start) (length cards) = length cards" by simp
  note f = window_from_init [OF run1, unfolded k]
  have "pos1 = length cards" using f by simp
  then have e: "w_idx_map w1 = []" using f by simp
  then have n: "nx = nat start" by (simp add: nx_def)
  then have d: "drop nx cards = []" using False by simp
  have "R = []" unfolding R_def d by simp
  then show ?thesis using e d by simp
next
  case True
  let ?s = "nat start"
  let ?a = "length (w_idx_map w1)"
  let ?mk = "\<lambda>c. (or_empty (c_id c), projr (extract_props lib c))"
  let ?has = "\<lambda>c. truthy (c_id c)"
  have k1: "min ?s (length cards) = ?s" using True by simp
  note f1 = window_from_init [OF run1, unfolded k1]
  have p1: "?s \<le> pos1" "pos1 \<le> length cards" using f1 by simp_all
  have idx1: "w_idx_map w1 = map ?mk (filter ?has (take (pos1 - ?s) (drop ?s cards)))"
    using f1 by simp
  obtain w0 where w0: "start \<le> w_i w0" "w_processed w0 = 0"
      "window_loop args lib start (drop ?s cards) ?s w0 = Inr (w1, pos1)"
    using f1 True by blast
  have a_le: "?a \<le> pos1 - ?s"
  proof -
    have "?a = length (filter ?has (take (pos1 - ?s) (drop ?s cards)))"
      by (simp add: idx1)
    also have "\<dots> \<le> length (take (pos1 - ?s) (drop ?s cards))"
      by (rule length_filter_le)
    also have "\<dots> = pos1 - ?s" using p1 by simp
    finally show ?thesis .
  qed
  have nx: "nx = ?s + ?a" using start by (simp add: nx_def nat_add_distrib)
  have nx_le: "nx \<le> pos1" using nx a_le p1 by simp
  have k2: "min (nat (start + int ?a)) (length cards) = nx"
    using nx_le p1 by (simp add: nx_def)
  note f2 = window_from_init [OF run2, unfolded k2]
  have p2: "nx \<le> pos2" "pos2 \<le> length cards" using f2 by simp_all
  have idx2: "w_idx_map w2 = map ?mk (filter ?has (take (pos2 - nx) (drop nx cards)))"
    using f2 by simp
  have "nat (start + int ?a) \<le> length cards" using nx_le p1 by (simp add: nx_def)
  then obtain v0 where v0: "start + int ?a \<le> w_i v0" "w_processed v0 = 0"
      "window_loop args lib (start + int ?a) (drop nx cards) nx v0 = Inr (w2, pos2)"
    using f2 by blast
  have dd: "drop ?a (drop ?s cards) = drop nx cards" by (simp add: nx add.commute)
  have reach: "pos1 \<le> pos2"
  proof (cases "nx < pos1")
    case False
    then show ?thesis using p2 by simp
  next
    case True
    then have "?s + ?a < pos1" using nx by simp
    from window_loop_split [OF w0(1) w0(3) this] obtain wm where
      wm: "start \<le> w_i wm" "w_processed w0 \<le> w_processed wm"
        "window_loop args lib start (drop ?a (drop ?s cards)) (?s + ?a) wm = Inr (w1, pos1)"
      by blast
    have e1: "window_loop args lib start (drop nx cards) nx wm = Inr (w1, pos1)"
      using wm(3) dd nx by simp
    have "w_processed v0 \<le> w_processed wm" using wm(2) w0(2) v0(2) by simp
    from window_loop_mono [OF wm(1) v0(1) this e1 v0(3)] show ?thesis .
  qed
  have t1: "take (pos1 - ?s) (drop ?s cards)
              = take ?a (drop ?s cards) @ take (pos1 - nx) (drop nx cards)"
  proof -
    have "pos1 - ?s = ?a + (pos1 - nx)" using nx nx_le by simp
    then show ?thesis by (simp only: take_add dd)
  qed
  have t2: "take (pos2 - nx) (drop nx cards)
              = take (pos1 - nx) (drop nx cards)
                  @ take (pos2 - pos1) (drop (pos1 - nx) (drop nx cards))"
  proof -
    have "pos2 - nx = (pos1 - nx) + (pos2 - pos1)" using nx_le reach by simp
    then show ?thesis by (simp only: take_add)
  qed
  have "w_idx_map w1 = map ?mk (filter ?has (take ?a (drop ?s cards))) @ R"
    unfolding R_def by (subst idx1, subst t1) simp
  moreover have "w_idx_map w2
      = R @ map ?mk (filter ?has (take (pos2 - pos1) (drop (pos1 - nx) (drop nx cards))))"
    unfolding R_def by (subst idx2, subst t2) simp
  ultimately have ab: "\<exists>A B. w_idx_map w1 = A @ R \<and> w_idx_map w2 = R @ B" by blast
  have "\<forall>c \<in> set (filter ?has (take (pos1 - ?s) (drop ?s cards))).
           \<exists>ps. extract_props lib c = Inr ps"
    using f1 by blast
  then have "\<forall>c \<in> set (filter ?has (take (pos1 - nx) (drop nx cards))).
           \<exists>ps. extract_props lib c = Inr ps"
    unfolding t1 by simp
  with ab show ?thesis by blast
qed

text \<open>
  When the first run has reached a positive limit, the last card it took is one it
  accepted; if its window held a card without identifier, that last card lies at or
  after the committed offset, so the resumed run emits it again.
\<close>

lemma resume_reemits:
  assumes run1: "window_loop args lib start cards 0 window_init = Inr (w1, pos1)"
    and start: "0 \<le> start"
    and limit: "0 < arg_limit args \<and> arg_limit args \<le> int (length (w_idx_map w1))"
    and gap: "nat start \<le> j \<and> j < pos1 \<and> \<not> truthy (c_id (cards ! j))"
  shows "filter (\<lambda>c. truthy (c_id c))
           (take (pos1 - nat (start + int (length (w_idx_map w1))))
              (drop (nat (start + int (length (w_idx_map w1)))) cards)) \<noteq> []"
proof -
  let ?nx = "nat (start + int (length (w_idx_map w1)))"
  note f = window_from_init [OF run1]
  have len: "pos1 \<le> length cards" using f by simp
  have ne: "w_idx_map w1 \<noteq> []" using limit by auto
  have lastc: "0 < pos1 \<and> truthy (c_id (cards ! (pos1 - 1)))"
    using f limit ne by auto
  have short: "?nx < pos1"
    using resume_short [OF run1 start gap] start by simp
  let ?tail = "take (pos1 - ?nx) (drop ?nx cards)"
  have in_tail: "pos1 - 1 - ?nx < pos1 - ?nx" using short by arith
  have "?tail ! (pos1 - 1 - ?nx) = drop ?nx cards ! (pos1 - 1 - ?nx)"
    using in_tail by (rule nth_take)
  also have "\<dots> = cards ! (?nx + (pos1 - 1 - ?nx))" using short len by (intro nth_drop) arith
  also have "\<dots> = cards ! (pos1 - 1)" using short by simp
  finally have "?tail ! (pos1 - 1 - ?nx) = cards ! (pos1 - 1)" .
  moreover have "pos1 - 1 - ?nx < length ?tail" using short len by simp
  ultimately have "cards ! (pos1 - 1) \<in> set ?tail" by (metis nth_mem)
  then show ?thesis using lastc by (auto simp: filter_empty_conv)
qed

text \<open>
  C10. In the windowing loop a card at or after the start offset that has no identifier
  leaves all variables as they are, the counter \<open>i\<close> among them. The committed
  \<^verbatim>\<open>next_offset\<close> is the start offset plus the number of objects written, and it is
  where a later run with no explicit offset starts. For a first run from a start offset
  that is not negative, and a second run from the offset the first one commits: if the
  window of the first run holds a card without identifier, the committed offset is
  strictly below the position one past the last card the first run has taken; the cards
  with identifier between the two, with the properties extracted from them, end the
  first batch and begin the second; and if the
  first run has reached a positive limit there is such a card, so the second run emits
  again what the first has emitted. The two runs are runs whose loops return; a loop
  returns, from every start offset, when \<^verbatim>\<open>extract_props\<close> returns for every card that
  has an identifier.
\<close>

theorem skipped_cards_shorten_offset:
  assumes "window_loop args lib start cards 0 (window_init :: 'f window) = Inr (w1, pos1)"
    and "window_loop args lib (start + int (length (w_idx_map w1))) cards 0 window_init
           = Inr (w2, pos2)"
    and "0 \<le> start"
  shows "(\<forall>c w. start \<le> w_i w \<and> \<not> truthy (c_id c) \<longrightarrow>
            window_body args lib start c w = Inr (w, False))
     \<and> (\<forall>vectors knd tot fs.
           length vectors = length (w_idx_map w1) \<and> arg_checkpoint args \<noteq> [] \<longrightarrow>
             length (assemble (w_idx_map w1) vectors) = length (w_idx_map w1)
             \<and> read_cp_off
                 (fst (commit args knd start (assemble (w_idx_map w1) vectors) tot Written fs)
                    (arg_checkpoint args))
               = CpOff (start + int (length (w_idx_map w1)))
             \<and> (arg_offset args = 0 \<longrightarrow>
                  fst (resolve_start_offset args
                         (fst (commit args knd start (assemble (w_idx_map w1) vectors) tot
                                 Written fs)))
                    = start + int (length (w_idx_map w1))))
     \<and> ((\<exists>j. nat start \<le> j \<and> j < pos1 \<and> \<not> truthy (c_id (cards ! j))) \<longrightarrow>
           start + int (length (w_idx_map w1)) < int pos1)
     \<and> (\<exists>A B.
           w_idx_map w1 = A @ map (\<lambda>c. (or_empty (c_id c), projr (extract_props lib c)))
                  (filter (\<lambda>c. truthy (c_id c))
                     (take (pos1 - nat (start + int (length (w_idx_map w1))))
                        (drop (nat (start + int (length (w_idx_map w1)))) cards)))
           \<and> w_idx_map w2 = map (\<lambda>c. (or_empty (c_id c), projr (extract_props lib c)))
                  (filter (\<lambda>c. truthy (c_id c))
                     (take (pos1 - nat (start + int (length (w_idx_map w1))))
                        (drop (nat (start + int (length (w_idx_map w1)))) cards))) @ B)
     \<and> (\<forall>c \<in> set (filter (\<lambda>c. truthy (c_id c))
                     (take (pos1 - nat (start + int (length (w_idx_map w1))))
                        (drop (nat (start + int (length (w_idx_map w1)))) cards))).
           \<exists>ps. extract_props lib c = Inr ps)
     \<and> (0 < arg_limit args \<and> arg_limit args \<le> int (length (w_idx_map w1))
          \<and> (\<exists>j. nat start \<le> j \<and> j < pos1 \<and> \<not> truthy (c_id (cards ! j))) \<longrightarrow>
           filter (\<lambda>c. truthy (c_id c))
             (take (pos1 - nat (start + int (length (w_idx_map w1))))
                (drop (nat (start + int (length (w_idx_map w1)))) cards)) \<noteq> [])
     \<and> (\<forall>s. (\<forall>c\<in>set cards. truthy (c_id c) \<longrightarrow> (\<exists>ps. extract_props lib c = Inr ps)) \<longrightarrow>
            (\<exists>w pos. window_loop args lib s cards 0 (window_init :: 'f window) = Inr (w, pos)))"
proof (intro conjI allI impI)
  fix c :: "'f card" and w :: "'f window"
  assume "start \<le> w_i w \<and> \<not> truthy (c_id c)"
  then show "window_body args lib start c w = Inr (w, False)"
    by (simp add: window_body_no_id)
next
  fix vectors :: "'f list list" and knd :: kind and tot :: int and fs :: "'f files"
  assume a: "length vectors = length (w_idx_map w1) \<and> arg_checkpoint args \<noteq> []"
  then show l: "length (assemble (w_idx_map w1) vectors) = length (w_idx_map w1)"
    by (simp add: assemble_def)
  show r: "read_cp_off
                 (fst (commit args knd start (assemble (w_idx_map w1) vectors) tot Written fs)
                    (arg_checkpoint args))
               = CpOff (start + int (length (w_idx_map w1)))"
    by (simp add: commit_def Let_def l)
  assume "arg_offset args = 0"
  then show "fst (resolve_start_offset args
                         (fst (commit args knd start (assemble (w_idx_map w1) vectors) tot
                                 Written fs)))
                    = start + int (length (w_idx_map w1))"
    using a r assms(3) by (simp add: resolve_start_offset_def Let_def)
next
  assume "\<exists>j. nat start \<le> j \<and> j < pos1 \<and> \<not> truthy (c_id (cards ! j))"
  then obtain j where "nat start \<le> j \<and> j < pos1 \<and> \<not> truthy (c_id (cards ! j))" by blast
  then show "start + int (length (w_idx_map w1)) < int pos1"
    by (rule resume_short [OF assms(1) assms(3)])
next
  show "\<exists>A B.
           w_idx_map w1 = A @ map (\<lambda>c. (or_empty (c_id c), projr (extract_props lib c)))
                  (filter (\<lambda>c. truthy (c_id c))
                     (take (pos1 - nat (start + int (length (w_idx_map w1))))
                        (drop (nat (start + int (length (w_idx_map w1)))) cards)))
           \<and> w_idx_map w2 = map (\<lambda>c. (or_empty (c_id c), projr (extract_props lib c)))
                  (filter (\<lambda>c. truthy (c_id c))
                     (take (pos1 - nat (start + int (length (w_idx_map w1))))
                        (drop (nat (start + int (length (w_idx_map w1)))) cards))) @ B"
    by (rule conjunct1 [OF resume_overlap [OF assms]])
next
  show "\<forall>c \<in> set (filter (\<lambda>c. truthy (c_id c))
                     (take (pos1 - nat (start + int (length (w_idx_map w1))))
                        (drop (nat (start + int (length (w_idx_map w1)))) cards))).
           \<exists>ps. extract_props lib c = Inr ps"
    by (rule conjunct2 [OF resume_overlap [OF assms]])
next
  assume a: "0 < arg_limit args \<and> arg_limit args \<le> int (length (w_idx_map w1))
          \<and> (\<exists>j. nat start \<le> j \<and> j < pos1 \<and> \<not> truthy (c_id (cards ! j)))"
  then obtain j where j: "nat start \<le> j \<and> j < pos1 \<and> \<not> truthy (c_id (cards ! j))" by blast
  from a have l: "0 < arg_limit args \<and> arg_limit args \<le> int (length (w_idx_map w1))" by simp
  show "filter (\<lambda>c. truthy (c_id c))
             (take (pos1 - nat (start + int (length (w_idx_map w1))))
                (drop (nat (start + int (length (w_idx_map w1)))) cards)) \<noteq> []"
    by (rule resume_reemits [OF assms(1) assms(3) l j])
next
  fix s
  assume "\<forall>c\<in>set cards. truthy (c_id c) \<longrightarrow> (\<exists>ps. extract_props lib c = Inr ps)"
  then show "\<exists>w pos. window_loop args lib s cards 0 (window_init :: 'f window) = Inr (w, pos)"
    by (rule window_loop_returns)
qed

theorem skipped_cards_shorten_offset_witness:
  "(\<exists>w1 w2 pos2.
      window_loop args0 exact_lib 0 cards5 0 window_init = Inr (w1, 3)
      \<and> window_loop args0 exact_lib 2 cards5 0 window_init = Inr (w2, pos2)
      \<and> map fst (w_idx_map w1) = [''a'', ''b'']
      \<and> 0 + int (length (w_idx_map w1)) < 3
      \<and> map fst (w_idx_map w2) = [''b'', ''c''])
   \<and> \<not> truthy (c_id (cards5 ! 1))
   \<and> map (\<lambda>c. or_empty (c_id c)) (filter (\<lambda>c. truthy (c_id c)) (take (3 - 2) (drop 2 cards5))) = [''b'']
   \<and> window_body args0 exact_lib 0 empty_card (window_init\<lparr>w_i := 1, w_processed := 1\<rparr>)
       = Inr (window_init\<lparr>w_i := 1, w_processed := 1\<rparr>, False)"
proof -
  let ?W1 = "projr (window_loop args0 exact_lib 0 cards5 0 window_init)"
  let ?W2 = "projr (window_loop args0 exact_lib 2 cards5 0 window_init)"
  have r1: "window_loop args0 exact_lib 0 cards5 0 window_init = Inr (fst ?W1, snd ?W1)"
    by (simp add: args0_def cards5_def card_with_id_def empty_card_def window_init_def
        window_body_def extract_props_def cmc_value_def edhrec_rank_value_def Let_def)
  have v1: "snd ?W1 = 3"
    and i1: "map fst (w_idx_map (fst ?W1)) = [''a'', ''b'']"
    by (simp_all add: args0_def cards5_def card_with_id_def empty_card_def window_init_def
        window_body_def extract_props_def cmc_value_def edhrec_rank_value_def Let_def)
  have q2: "window_loop args0 exact_lib 2 cards5 0 window_init = Inr (fst ?W2, snd ?W2)"
    by (simp add: args0_def cards5_def card_with_id_def empty_card_def window_init_def
        window_body_def extract_props_def cmc_value_def edhrec_rank_value_def Let_def)
  have i2: "map fst (w_idx_map (fst ?W2)) = [''b'', ''c'']"
    by (simp add: args0_def cards5_def card_with_id_def empty_card_def window_init_def
        window_body_def extract_props_def cmc_value_def edhrec_rank_value_def Let_def)
  have a1: "length (w_idx_map (fst ?W1)) = 2"
    using arg_cong [OF i1, of length] by simp
  have r2: "window_loop args0 exact_lib (0 + int (length (w_idx_map (fst ?W1)))) cards5 0 window_init
              = Inr (fst ?W2, snd ?W2)"
    using q2 by (simp add: a1)
  have s: "(0::int) \<le> 0" by simp
  note t = skipped_cards_shorten_offset [OF r1 r2 s]
  have g: "\<not> truthy (c_id (cards5 ! 1))"
    by (simp add: cards5_def empty_card_def)
  have short: "0 + int (length (w_idx_map (fst ?W1))) < 3"
  proof -
    have "\<exists>j. nat 0 \<le> j \<and> j < snd ?W1 \<and> \<not> truthy (c_id (cards5 ! j))"
      using g v1 by (intro exI [of _ 1]) simp
    with t have "0 + int (length (w_idx_map (fst ?W1))) < int (snd ?W1)" by blast
    then show ?thesis using v1 by simp
  qed
  have R: "map (\<lambda>c. or_empty (c_id c)) (filter (\<lambda>c. truthy (c_id c)) (take (3 - 2) (drop 2 cards5))) = [''b'']"
    by (simp add: cards5_def card_with_id_def empty_card_def)
  have b: "window_body args0 exact_lib 0 empty_card (window_init\<lparr>w_i := 1, w_processed := 1\<rparr>)
       = Inr (window_init\<lparr>w_i := 1, w_processed := 1\<rparr>, False)"
  proof -
    have "(0::int) \<le> w_i (window_init\<lparr>w_i := 1, w_processed := 1\<rparr> :: real window)
            \<and> \<not> truthy (c_id empty_card)"
      by (simp add: empty_card_def)
    with t show ?thesis by blast
  qed
  have r1': "window_loop args0 exact_lib 0 cards5 0 window_init = Inr (fst ?W1, 3)"
    using r1 v1 by simp
  have ex: "\<exists>w1 w2 pos2.
      window_loop args0 exact_lib 0 cards5 0 window_init = Inr (w1, 3)
      \<and> window_loop args0 exact_lib 2 cards5 0 window_init = Inr (w2, pos2)
      \<and> map fst (w_idx_map w1) = [''a'', ''b'']
      \<and> 0 + int (length (w_idx_map w1)) < 3
      \<and> map fst (w_idx_map w2) = [''b'', ''c'']"
    by (rule exI [of _ "fst ?W1"], rule exI [of _ "fst ?W2"], rule exI [of _ "snd ?W2"],
        intro conjI, rule r1', rule q2, rule i1, rule short, rule i2)
  show ?thesis using ex g R b by blast
qed

section \<open>Resuming over cards that all have an identifier\<close>

lemma window_loop_all_ids:
  assumes "\<forall>c\<in>set cs. truthy (c_id c)" and "start \<le> w_i w"
    and "w_processed w < arg_limit args" and "0 < arg_limit args"
    and "window_loop args lib start cs pos w = Inr (w', pos')"
  shows "pos' = pos + min (nat (arg_limit args - w_processed w)) (length cs)"
  using assms
proof (induction cs arbitrary: pos w)
  case Nil
  then show ?case by simp
next
  case (Cons c cs)
  have id: "truthy (c_id c)" using Cons.prems(1) by simp
  from window_loop_extracted [OF Cons.prems(2) id Cons.prems(5)]
  obtain ps where ex: "extract_props lib c = Inr ps" by blast
  let ?w1 = "w\<lparr>w_texts := w_texts w @ [build_embed_text c (arg_include_name args)],
        w_idx_map := w_idx_map w @ [(or_empty (c_id c), ps)],
        w_processed := w_processed w + 1,
        w_i := w_i w + 1\<rparr>"
  show ?case
  proof (cases "arg_limit args \<le> w_processed w + 1")
    case True
    then have "window_loop args lib start (c # cs) pos w = Inr (?w1, Suc pos)"
      using Cons.prems(4) by (simp add: window_body_accept [OF Cons.prems(2) id ex])
    then have "pos' = Suc pos" using Cons.prems(5) by simp
    moreover have "nat (arg_limit args - w_processed w) = 1"
      using True Cons.prems(3) by simp
    ultimately show ?thesis by simp
  next
    case False
    then have "window_loop args lib start (c # cs) pos w
                 = window_loop args lib start cs (Suc pos) ?w1"
      by (simp add: window_body_accept [OF Cons.prems(2) id ex])
    then have rec: "window_loop args lib start cs (Suc pos) ?w1 = Inr (w', pos')"
      using Cons.prems(5) by simp
    have a: "\<forall>c\<in>set cs. truthy (c_id c)" using Cons.prems(1) by simp
    have b: "start \<le> w_i ?w1" using Cons.prems(2) by simp
    have c: "w_processed ?w1 < arg_limit args" using False by simp
    have "pos' = Suc pos + min (nat (arg_limit args - w_processed ?w1)) (length cs)"
      by (rule Cons.IH [OF a b c Cons.prems(4) rec])
    moreover have "nat (arg_limit args - w_processed w)
        = Suc (nat (arg_limit args - w_processed ?w1))"
      using False by simp
    ultimately show ?thesis by simp
  qed
qed

text \<open>
  With a positive limit, over cards that all have an identifier, a run from a start
  offset inside the list emits the cards at the positions from the start offset up to
  the limit, and commits the position after them: the next run neither repeats nor
  skips a card.
\<close>

lemma resume_exact_all_ids:
  assumes run: "window_loop args lib start cards 0 window_init = Inr (w, pos)"
    and ids: "\<forall>c\<in>set cards. truthy (c_id c)"
    and start: "0 \<le> start" "nat start \<le> length cards"
    and limit: "0 < arg_limit args"
  shows "map fst (w_idx_map w)
           = map (\<lambda>c. or_empty (c_id c)) (take (nat (arg_limit args)) (drop (nat start) cards))"
    and "start + int (length (w_idx_map w)) = int pos"
    and "pos = min (nat start + nat (arg_limit args)) (length cards)"
proof -
  let ?s = "nat start"
  have k: "min ?s (length cards) = ?s" using start(2) by simp
  note f = window_from_init [OF run, unfolded k]
  obtain w0 where w0: "start \<le> w_i w0" "w_processed w0 = 0"
      "window_loop args lib start (drop ?s cards) ?s w0 = Inr (w, pos)"
    using f start(2) by blast
  have d: "\<forall>c\<in>set (drop ?s cards). truthy (c_id c)"
    using ids by (auto dest: in_set_dropD)
  have l0: "w_processed w0 < arg_limit args" using w0(2) limit by simp
  have "pos = ?s + min (nat (arg_limit args - w_processed w0)) (length (drop ?s cards))"
    by (rule window_loop_all_ids [OF d w0(1) l0 limit w0(3)])
  then have p: "pos = ?s + min (nat (arg_limit args)) (length cards - ?s)"
    using w0 by simp
  then show "pos = min (nat start + nat (arg_limit args)) (length cards)"
    using start(2) by arith
  show "start + int (length (w_idx_map w)) = int pos"
    by (rule window_all_ids(1) [OF run ids start])
  have "take (pos - ?s) (drop ?s cards) = take (nat (arg_limit args)) (drop ?s cards)"
    using p by (simp add: min_def)
  then show "map fst (w_idx_map w)
           = map (\<lambda>c. or_empty (c_id c)) (take (nat (arg_limit args)) (drop (nat start) cards))"
    using window_all_ids(2) [OF run ids start] by simp
qed

text \<open>
  C1, on a collection with a card that has no identifier. Two runs with
  \<^verbatim>\<open>--checkpoint cp.json --limit 2\<close> over the five cards \<open>a\<close>, a card without
  identifier, \<open>b\<close>, \<open>c\<close>, \<open>d\<close>: the first writes \<open>a\<close> and \<open>b\<close> and commits 2; the second
  starts at position 2, which is the card \<open>b\<close>, writes \<open>b\<close> and \<open>c\<close> and commits 4. The card
  \<open>b\<close> is in both batches.
\<close>

theorem two_runs_share_a_card:
  "(case main args0 ST unit_encoder exact_lib cards5 no_faults (\<lambda>p. NoFile) of
      Inl e \<Rightarrow> False
    | Inr (fs1, out1) \<Rightarrow>
        batch_ids (fs1 ''out.json'') = [''a'', ''b'']
        \<and> read_cp_off (fs1 ''cp.json'') = CpOff 2
        \<and> (case main args0 ST unit_encoder exact_lib cards5 no_faults fs1 of
              Inl e \<Rightarrow> False
            | Inr (fs2, out2) \<Rightarrow>
                batch_ids (fs2 ''out.json'') = [''b'', ''c'']
                \<and> read_cp_off (fs2 ''cp.json'') = CpOff 4
                \<and> set (batch_ids (fs1 ''out.json'')) \<inter> set (batch_ids (fs2 ''out.json''))
                    = {''b''}))"
  by (simp add: main_def resolve_start_offset_def cards5_def args0_def window_init_def
      window_body_def card_with_id_def empty_card_def extract_props_def cmc_value_def
      edhrec_rank_value_def exact_lib_def l2_normalize_def Let_def compute_objects_def encode_all_def
      batch_size_of_def embed_loop_pointwise [of unit_encoder "\<lambda>t. [1]"] unit_encoder_def
      assemble_def make_object_def no_faults_def commit_def batch_ids_def)

end
